theory Spec2Isabelle
  imports Complex_Main
begin

section \<open>Duck Hunt: the simulation core of duckV1.py\<close>

text \<open>
  The embedding follows \<^verbatim>\<open>src/GameLogic/duckV1.py\<close>: the classes \<^verbatim>\<open>Duck\<close> and
  \<^verbatim>\<open>Particle\<close>, the dictionary built by \<^verbatim>\<open>new_game\<close> and one pass of the
  \<^verbatim>\<open>while True\<close> loop of \<^verbatim>\<open>main\<close> (a frame). Drawing is left out: it reads the
  state and never writes it.

  Python floats are modelled as \<^typ>\<open>real\<close> and Python ints as \<^typ>\<open>int\<close>. Every
  value drawn from \<^verbatim>\<open>random\<close> and every value delivered by pygame (the elapsed
  milliseconds, the event queue, the relative mouse motion) is an input of the frame.

  The hit test \<^verbatim>\<open>Duck.collides\<close> compares against bounds that are themselves computed
  in floating point, so it is modelled with the rounding of each of its float operations:
  \<open>dbl\<close> below. Elsewhere the arithmetic of the floats is taken as exact.
\<close>

subsection \<open>Constants\<close>

definition WIN_W :: int where "WIN_W = 1280"
definition WIN_H :: int where "WIN_H = 720"
definition FPS :: int where "FPS = 60"
definition MAX_DUCKS :: nat where "MAX_DUCKS = 3"
definition STARTING_LIVES :: int where "STARTING_LIVES = 6"
definition STARTING_AMMO :: int where "STARTING_AMMO = 10"
definition GAME_DURATION :: real where "GAME_DURATION = 60"
definition DUCK_BASE_SPEED :: int where "DUCK_BASE_SPEED = 180"
definition SPEED_INCREMENT :: int where "SPEED_INCREMENT = 15"
definition MAX_SPEED :: int where "MAX_SPEED = 500"
definition FLAP_SPEED :: int where "FLAP_SPEED = 8"

type_synonym color = "nat \<times> nat \<times> nat"

definition MUZZLE_COL :: color where "MUZZLE_COL = (255, 220, 80)"

subsection \<open>Rounding to a double\<close>

text \<open>
  \<open>dbl x\<close> is the double nearest to \<open>x\<close>: 53 significant bits, ties to the even
  significand, as IEEE 754 rounds the result of every float operation. The range of the
  exponent is not bounded: no value of this program comes near the largest double, and a
  difference of two doubles that falls below the smallest normal double is exact.
\<close>

definition round_even :: "real \<Rightarrow> int" where
  "round_even r =
     (let f = \<lfloor>r\<rfloor>
      in if r - of_int f < 1 / 2 then f
         else if 1 / 2 < r - of_int f then f + 1
         else if even f then f else f + 1)"

definition dbl :: "real \<Rightarrow> real" where
  "dbl x =
     (if x = 0 then 0
      else let q = 2 powr (of_int \<lfloor>log 2 \<bar>x\<bar>\<rfloor> - 52)
           in of_int (round_even (x / q)) * q)"

subsection \<open>class Duck\<close>

record duck =
  d_speed :: int
  d_size :: int
  d_dir :: int
  d_x :: real
  d_y :: real
  d_wave_amp :: real
  d_wave_freq :: real
  d_base_y :: real
  d_time :: real
  d_alive :: bool
  d_hit :: bool
  d_hit_timer :: int
  d_flap_frame :: int
  d_wing_up :: bool

text \<open>
  The four draws of \<^verbatim>\<open>Duck.reset\<close>, in the order of the source:
  \<^verbatim>\<open>random.choice([-1, 1])\<close>, \<^verbatim>\<open>random.randint(60, int(WIN_H * 0.55))\<close>,
  \<^verbatim>\<open>random.uniform(30, 90)\<close> and \<^verbatim>\<open>random.uniform(1.5, 3.5)\<close>.
\<close>

record duck_rand =
  r_dir :: int
  r_y :: int
  r_wave_amp :: real
  r_wave_freq :: real

definition duck_rand_ok :: "duck_rand \<Rightarrow> bool" where
  "duck_rand_ok r \<longleftrightarrow>
     (r_dir r = - 1 \<or> r_dir r = 1) \<and> 60 \<le> r_y r \<and> r_y r \<le> 396 \<and>
     30 \<le> r_wave_amp r \<and> r_wave_amp r \<le> 90 \<and>
     3 / 2 \<le> r_wave_freq r \<and> r_wave_freq r \<le> 7 / 2"

definition reset :: "duck \<Rightarrow> int \<Rightarrow> duck_rand \<Rightarrow> duck" where
  "reset d sp r =
     d\<lparr> d_speed := sp,
        d_dir := r_dir r,
        d_x := (if r_dir r = 1 then - real_of_int (d_size d)
                else real_of_int (WIN_W + d_size d)),
        d_y := real_of_int (r_y r),
        d_wave_amp := r_wave_amp r,
        d_wave_freq := r_wave_freq r,
        d_base_y := real_of_int (r_y r),
        d_time := 0,
        d_alive := True,
        d_hit := False,
        d_hit_timer := 0,
        d_flap_frame := 0,
        d_wing_up := True \<rparr>"

text \<open>
  \<^verbatim>\<open>Duck.__init__\<close> sets \<^verbatim>\<open>speed\<close> and \<^verbatim>\<open>size\<close> and calls \<^verbatim>\<open>reset\<close>, which
  assigns every other attribute; the remaining fields of the record below are
  overwritten before they can be read.
\<close>

definition Duck :: "int \<Rightarrow> duck_rand \<Rightarrow> duck" where
  "Duck sp r =
     reset \<lparr> d_speed = sp, d_size = 48, d_dir = 0, d_x = 0, d_y = 0,
             d_wave_amp = 0, d_wave_freq = 0, d_base_y = 0, d_time = 0,
             d_alive = True, d_hit = False, d_hit_timer = 0, d_flap_frame = 0,
             d_wing_up = True \<rparr> sp r"

definition update :: "duck \<Rightarrow> real \<Rightarrow> int \<Rightarrow> duck" where
  "update d dt sp =
     (if \<not> d_alive d then d
      else
        let d1 = d\<lparr> d_speed := sp \<rparr>;
            d2 = d1\<lparr> d_time := d_time d1 + dt \<rparr>;
            d3 = d2\<lparr> d_x := d_x d2 + real_of_int (d_dir d2) * real_of_int (d_speed d2) * dt \<rparr>;
            d4 = d3\<lparr> d_y := d_base_y d3 + sin (d_time d3 * d_wave_freq d3) * d_wave_amp d3 \<rparr>;
            d5 = d4\<lparr> d_flap_frame := d_flap_frame d4 + 1 \<rparr>;
            d6 = (if d_flap_frame d5 \<ge> FLAP_SPEED
                  then d5\<lparr> d_flap_frame := 0, d_wing_up := \<not> d_wing_up d5 \<rparr>
                  else d5)
        in if d_hit d6
           then let d7 = d6\<lparr> d_hit_timer := d_hit_timer d6 - 1 \<rparr>
                in if d_hit_timer d7 \<le> 0 then d7\<lparr> d_alive := False \<rparr> else d7
           else d6)"

definition is_offscreen :: "duck \<Rightarrow> bool" where
  "is_offscreen d \<longleftrightarrow>
     d_x d < real_of_int (- d_size d * 2) \<or> d_x d > real_of_int (WIN_W + d_size d * 2)"

text \<open>
  \<^verbatim>\<open>hw = self.size * 0.9\<close>: the literal is the double nearest to 0.9, the product is
  rounded; \<^verbatim>\<open>px - self.x\<close> is rounded, \<^verbatim>\<open>abs\<close> and \<^verbatim>\<open><\<close> are exact. The ints
  \<open>size\<close>, \<open>px\<close> and \<open>py\<close> are doubles as they are.
\<close>

definition collides :: "duck \<Rightarrow> int \<Rightarrow> int \<Rightarrow> bool" where
  "collides d px py \<longleftrightarrow>
     (let hw = dbl (real_of_int (d_size d) * dbl (9 / 10));
          hh = dbl (real_of_int (d_size d) * dbl (6 / 10))
      in \<bar>dbl (real_of_int px - d_x d)\<bar> < hw \<and> \<bar>dbl (real_of_int py - d_y d)\<bar> < hh)"

text \<open>\<^verbatim>\<open>Duck.shoot\<close> returns its boolean result together with the duck it may have changed.\<close>

definition shoot :: "duck \<Rightarrow> bool \<times> duck" where
  "shoot d =
     (if \<not> d_alive d \<or> d_hit d then (False, d)
      else (True, d\<lparr> d_hit := True, d_hit_timer := 20 \<rparr>))"

subsection \<open>class Particle\<close>

record particle =
  p_x :: real
  p_y :: real
  p_vx :: real
  p_vy :: real
  p_life :: real
  p_max_life :: real
  p_color :: color
  p_r :: int

text \<open>The draws of \<^verbatim>\<open>Particle.__init__\<close>: angle, speed, life, colour and radius.\<close>

record particle_rand =
  pr_angle :: real
  pr_speed :: real
  pr_life :: real
  pr_color :: color
  pr_r :: int

definition particle_rand_ok :: "particle_rand \<Rightarrow> bool" where
  "particle_rand_ok r \<longleftrightarrow>
     0 \<le> pr_angle r \<and> pr_angle r \<le> pi * 2 \<and>
     80 \<le> pr_speed r \<and> pr_speed r \<le> 220 \<and>
     15 / 100 \<le> pr_life r \<and> pr_life r \<le> 35 / 100 \<and>
     pr_color r \<in> set [MUZZLE_COL, (255, 160, 30), (255, 80, 30)] \<and>
     3 \<le> pr_r r \<and> pr_r r \<le> 7"

definition Particle :: "real \<Rightarrow> real \<Rightarrow> particle_rand \<Rightarrow> particle" where
  "Particle px py r =
     \<lparr> p_x = px, p_y = py,
       p_vx = cos (pr_angle r) * pr_speed r,
       p_vy = sin (pr_angle r) * pr_speed r,
       p_life = pr_life r,
       p_max_life = pr_life r,
       p_color = pr_color r,
       p_r = pr_r r \<rparr>"

definition p_update :: "particle \<Rightarrow> real \<Rightarrow> particle" where
  "p_update p dt =
     (let p1 = p\<lparr> p_x := p_x p + p_vx p * dt \<rparr>;
          p2 = p1\<lparr> p_y := p_y p1 + p_vy p1 * dt \<rparr>;
          p3 = p2\<lparr> p_vy := p_vy p2 + 400 * dt \<rparr>
      in p3\<lparr> p_life := p_life p3 - dt \<rparr>)"

subsection \<open>The state dictionary of main\<close>

record state =
  score :: int
  lives :: int
  ammo :: int
  time_left :: real
  speed :: int
  ducks :: "duck list"
  particles :: "particle list"
  game_over :: bool
  over_reason :: string
  mx :: int
  my :: int
  prev_btn :: bool

definition new_game :: "(nat \<Rightarrow> duck_rand) \<Rightarrow> state" where
  "new_game rd =
     \<lparr> score = 0,
       lives = STARTING_LIVES,
       ammo = STARTING_AMMO,
       time_left = GAME_DURATION,
       speed = DUCK_BASE_SPEED,
       ducks = map (\<lambda>i. Duck DUCK_BASE_SPEED (rd i)) [0..<MAX_DUCKS],
       particles = [],
       game_over = False,
       over_reason = [],
       mx = WIN_W div 2,
       my = WIN_H div 2,
       prev_btn = False \<rparr>"

subsection \<open>Inputs of one frame\<close>

datatype key = K_ESCAPE | K_r | K_other

datatype event = QUIT | KEYDOWN key | MOUSEBUTTONDOWN int | OTHER_EVENT

text \<open>
  \<^verbatim>\<open>in_ms\<close> is the result of \<^verbatim>\<open>clock.tick(FPS)\<close> (milliseconds, never negative),
  \<^verbatim>\<open>in_rel\<close> that of \<^verbatim>\<open>pygame.mouse.get_rel()\<close>. The four functions supply the
  random draws: for the ducks built by a restart, for the duck at each pool index should
  the frame reset it, and for the particles of the two bursts.
\<close>

record input =
  in_ms :: nat
  in_events :: "event list"
  in_rel :: "int \<times> int"
  in_new :: "nat \<Rightarrow> duck_rand"
  in_reset :: "nat \<Rightarrow> duck_rand"
  in_burst :: "nat \<Rightarrow> particle_rand"
  in_muzzle :: "nat \<Rightarrow> particle_rand"

definition dt_of :: "input \<Rightarrow> real" where
  "dt_of inp = real (in_ms inp) / 1000"

subsection \<open>The event loop\<close>

text \<open>
  \<^verbatim>\<open>None\<close> is \<^verbatim>\<open>pygame.quit(); sys.exit()\<close>. The second component is
  \<^verbatim>\<open>shoot_this_frame\<close>.
\<close>

fun handle_events :: "(nat \<Rightarrow> duck_rand) \<Rightarrow> event list \<Rightarrow> state \<Rightarrow> bool \<Rightarrow> (state \<times> bool) option" where
  "handle_events rd [] st sh = Some (st, sh)"
| "handle_events rd (QUIT # es) st sh = None"
| "handle_events rd (KEYDOWN k # es) st sh =
     (if k = K_ESCAPE then None
      else if k = K_r \<and> game_over st then handle_events rd es (new_game rd) sh
      else handle_events rd es st sh)"
| "handle_events rd (MOUSEBUTTONDOWN b # es) st sh =
     (if b = 1 \<and> \<not> game_over st then handle_events rd es st True
      else handle_events rd es st sh)"
| "handle_events rd (OTHER_EVENT # es) st sh = handle_events rd es st sh"

subsection \<open>The phases of a frame\<close>

definition mouse_step :: "int \<times> int \<Rightarrow> state \<Rightarrow> state" where
  "mouse_step rel st =
     (let st1 = st\<lparr> mx := max 0 (min (WIN_W - 1) (mx st + fst rel)) \<rparr>
      in st1\<lparr> my := max 0 (min (WIN_H - 1) (my st1 + snd rel)) \<rparr>)"

definition timer_step :: "real \<Rightarrow> state \<Rightarrow> state" where
  "timer_step dt st =
     (let st1 = st\<lparr> time_left := time_left st - dt \<rparr>
      in if time_left st1 \<le> 0
         then st1\<lparr> time_left := 0, game_over := True, over_reason := ''TIME'S UP!'' \<rparr>
         else st1)"

text \<open>
  The \<^verbatim>\<open>for duck in state["ducks"]\<close> loop of the shot, with its \<^verbatim>\<open>break\<close>: the
  ducks not yet visited, the state, and the result: the ducks as the loop leaves them,
  the state and \<^verbatim>\<open>hit_any\<close>.
\<close>

fun shoot_loop :: "(nat \<Rightarrow> particle_rand) \<Rightarrow> int \<Rightarrow> int \<Rightarrow> duck list \<Rightarrow> state \<Rightarrow> duck list \<times> state \<times> bool" where
  "shoot_loop rp px py [] st = ([], st, False)"
| "shoot_loop rp px py (d # rest) st =
     (if d_alive d \<and> \<not> d_hit d \<and> collides d px py
      then
        let d' = snd (shoot d);
            st1 = st\<lparr> score := score st + 100 \<rparr>;
            st2 = st1\<lparr> speed := min (speed st1 + SPEED_INCREMENT) MAX_SPEED \<rparr>;
            st3 = st2\<lparr> particles := particles st2 @ map (\<lambda>k. Particle (d_x d') (d_y d') (rp k)) [0..<18] \<rparr>
        in (d' # rest, st3, True)
      else
        let (rest', st', h) = shoot_loop rp px py rest st
        in (d # rest', st', h))"

definition shoot_step :: "input \<Rightarrow> bool \<Rightarrow> state \<Rightarrow> state" where
  "shoot_step inp shoot_this_frame st =
     (if shoot_this_frame \<and> ammo st > 0
      then
        let st1 = st\<lparr> ammo := ammo st - 1 \<rparr>;
            (ds, st2, hit_any) = shoot_loop (in_burst inp) (mx st1) (my st1) (ducks st1) st1;
            st3 = st2\<lparr> ducks := ds \<rparr>
        in st3\<lparr> particles := particles st3 @
               map (\<lambda>k. Particle (real_of_int (mx st3)) (real_of_int (my st3)) (in_muzzle inp k)) [0..<8] \<rparr>
      else st)"

definition alive_count :: "state \<Rightarrow> nat" where
  "alive_count st = length (filter (\<lambda>d. d_alive d \<and> \<not> d_hit d) (ducks st))"

definition ammo_step :: "state \<Rightarrow> state" where
  "ammo_step st =
     (if ammo st = 0
      then if alive_count st = MAX_DUCKS
           then st\<lparr> game_over := True, over_reason := ''OUT OF AMMO!'' \<rparr>
           else st
      else st)"

text \<open>
  The \<^verbatim>\<open>for i, duck in enumerate(state["ducks"])\<close> loop: \<^verbatim>\<open>i\<close> is the pool index of
  the head of the list still to visit.
\<close>

fun update_ducks :: "real \<Rightarrow> (nat \<Rightarrow> duck_rand) \<Rightarrow> nat \<Rightarrow> duck list \<Rightarrow> state \<Rightarrow> duck list \<times> state" where
  "update_ducks dt rd i [] st = ([], st)"
| "update_ducks dt rd i (d # rest) st =
     (let d1 = update d dt (speed st)
      in if is_offscreen d1 \<and> \<not> d_hit d1
         then
           let st1 = st\<lparr> lives := lives st - 1 \<rparr>;
               st2 = (if lives st1 \<le> 0
                      then st1\<lparr> lives := 0, game_over := True, over_reason := ''GAME OVER!'' \<rparr>
                      else st1);
               d2 = reset d1 (speed st2) (rd i);
               (rest', st') = update_ducks dt rd (Suc i) rest st2
           in (d2 # rest', st')
         else if \<not> d_alive d1
         then
           let d2 = reset d1 (speed st) (rd i);
               (rest', st') = update_ducks dt rd (Suc i) rest st
           in (d2 # rest', st')
         else
           let (rest', st') = update_ducks dt rd (Suc i) rest st
           in (d1 # rest', st'))"

definition ducks_step :: "input \<Rightarrow> state \<Rightarrow> state" where
  "ducks_step inp st =
     (let (ds, st') = update_ducks (dt_of inp) (in_reset inp) 0 (ducks st) st
      in st'\<lparr> ducks := ds \<rparr>)"

definition particles_step :: "real \<Rightarrow> state \<Rightarrow> state" where
  "particles_step dt st =
     (let st1 = st\<lparr> particles := filter (\<lambda>p. p_life p > 0) (particles st) \<rparr>
      in st1\<lparr> particles := map (\<lambda>p. p_update p dt) (particles st1) \<rparr>)"

text \<open>The body of the loop below the \<^verbatim>\<open>if state["game_over"]: ... continue\<close>.\<close>

definition tick :: "input \<Rightarrow> bool \<Rightarrow> state \<Rightarrow> state" where
  "tick inp shoot_this_frame st =
     particles_step (dt_of inp)
       (ducks_step inp
         (ammo_step
           (shoot_step inp shoot_this_frame
             (timer_step (dt_of inp)
               (mouse_step (in_rel inp) st)))))"

text \<open>One pass of \<^verbatim>\<open>while True\<close>; \<^verbatim>\<open>None\<close> when the program exits.\<close>

definition frame :: "input \<Rightarrow> state \<Rightarrow> state option" where
  "frame inp st =
     (case handle_events (in_new inp) (in_events inp) st False of
        None \<Rightarrow> None
      | Some (st1, shoot_this_frame) \<Rightarrow>
          if game_over st1 then Some st1 else Some (tick inp shoot_this_frame st1))"

text \<open>The states the program can be in at the top of the loop.\<close>

inductive reachable :: "state \<Rightarrow> bool" where
  reachable_new: "reachable (new_game rd)"
| reachable_frame: "reachable st \<Longrightarrow> frame inp st = Some st' \<Longrightarrow> reachable st'"

subsection \<open>Vocabulary of the specification\<close>

text \<open>
  The specification's lifecycle of a target, read off the two flags of the source:
  \<^verbatim>\<open>alive and not hit\<close> is Flying, \<^verbatim>\<open>alive and hit\<close> is Hit, \<^verbatim>\<open>not alive\<close> is Gone.
\<close>

datatype lifecycle = Flying | Hit | Gone

definition lifecycle :: "duck \<Rightarrow> lifecycle" where
  "lifecycle d = (if \<not> d_alive d then Gone else if d_hit d then Hit else Flying)"

text \<open>The guard of the shot loop (line 392 of the source).\<close>

definition eligible :: "int \<Rightarrow> int \<Rightarrow> duck \<Rightarrow> bool" where
  "eligible px py d \<longleftrightarrow> d_alive d \<and> \<not> d_hit d \<and> collides d px py"

text \<open>What the body of the shot loop does to the state when it hits duck \<open>d\<close> (lines 394 to 399).\<close>

definition hit_state :: "(nat \<Rightarrow> particle_rand) \<Rightarrow> duck \<Rightarrow> state \<Rightarrow> state" where
  "hit_state rp d st =
     st\<lparr> score := score st + 100,
         speed := min (speed st + SPEED_INCREMENT) MAX_SPEED,
         particles := particles st @ map (\<lambda>k. Particle (d_x d) (d_y d) (rp k)) [0..<18] \<rparr>"

text \<open>The muzzle burst of a shot (lines 402 and 403).\<close>

definition muzzle :: "input \<Rightarrow> state \<Rightarrow> particle list" where
  "muzzle inp st =
     map (\<lambda>k. Particle (real_of_int (mx st)) (real_of_int (my st)) (in_muzzle inp k)) [0..<8]"

text \<open>
  The guard of line 420, on the duck as \<^verbatim>\<open>update\<close> leaves it, and the effect of lines 422
  to 426 on the state.
\<close>

definition escapes :: "real \<Rightarrow> int \<Rightarrow> duck \<Rightarrow> bool" where
  "escapes dt sp d \<longleftrightarrow> is_offscreen (update d dt sp) \<and> \<not> d_hit (update d dt sp)"

definition lose_life :: "state \<Rightarrow> state" where
  "lose_life st =
     (if lives st - 1 \<le> 0
      then st\<lparr> lives := 0, game_over := True, over_reason := ''GAME OVER!'' \<rparr>
      else st\<lparr> lives := lives st - 1 \<rparr>)"

text \<open>The invariant of the loop of \<^verbatim>\<open>main\<close>, kept by every phase of a frame.\<close>

definition state_ok :: "state \<Rightarrow> bool" where
  "state_ok st \<longleftrightarrow>
     0 \<le> ammo st \<and> ammo st \<le> STARTING_AMMO \<and>
     0 \<le> lives st \<and> lives st \<le> STARTING_LIVES \<and>
     0 \<le> time_left st \<and>
     0 \<le> mx st \<and> mx st < WIN_W \<and> 0 \<le> my st \<and> my st < WIN_H \<and>
     (game_over st \<longleftrightarrow> over_reason st \<noteq> []) \<and>
     over_reason st \<in> set [[], ''TIME'S UP!'', ''OUT OF AMMO!'', ''GAME OVER!''] \<and>
     length (ducks st) = MAX_DUCKS \<and>
     (\<forall>d \<in> set (ducks st). d_alive d \<and> d_size d = 48) \<and>
     (\<not> game_over st \<longrightarrow> 0 < lives st \<and> 0 < time_left st)"

subsection \<open>Concrete inputs\<close>

text \<open>Draws inside the ranges of the source, the same at every call.\<close>

definition rd0 :: "nat \<Rightarrow> duck_rand" where
  "rd0 = (\<lambda>_. \<lparr> r_dir = 1, r_y = 200, r_wave_amp = 40, r_wave_freq = 2 \<rparr>)"

definition pr0 :: "nat \<Rightarrow> particle_rand" where
  "pr0 = (\<lambda>_. \<lparr> pr_angle = 0, pr_speed = 100, pr_life = 1 / 5, pr_color = MUZZLE_COL, pr_r = 5 \<rparr>)"

text \<open>A frame of \<open>ms\<close> milliseconds with the given events and mouse motion.\<close>

definition inp0 :: "nat \<Rightarrow> event list \<Rightarrow> int \<times> int \<Rightarrow> input" where
  "inp0 ms es rel =
     \<lparr> in_ms = ms, in_events = es, in_rel = rel,
       in_new = rd0, in_reset = rd0, in_burst = pr0, in_muzzle = pr0 \<rparr>"

text \<open>A duck in the middle of the field and one that has been hit.\<close>

definition duck_mid :: duck where
  "duck_mid =
     \<lparr> d_speed = 180, d_size = 48, d_dir = 1, d_x = 640, d_y = 360,
       d_wave_amp = 40, d_wave_freq = 2, d_base_y = 360, d_time = 0,
       d_alive = True, d_hit = False, d_hit_timer = 0, d_flap_frame = 0,
       d_wing_up = True \<rparr>"

definition duck_shot :: duck where
  "duck_shot = duck_mid\<lparr> d_hit := True, d_hit_timer := 7 \<rparr>"

text \<open>A fresh round whose first two targets both lie under the reticle at the centre.\<close>

definition st_two :: state where
  "st_two = (new_game rd0)\<lparr> ducks := [duck_mid, duck_mid\<lparr> d_x := 650 \<rparr>, Duck DUCK_BASE_SPEED (rd0 2)] \<rparr>"

text \<open>
  The box of the specification's sentence: centred on the target, of total width
  0.9 times \<open>size\<close> and total height 0.6 times \<open>size\<close>.
\<close>

definition in_spec_box :: "duck \<Rightarrow> int \<Rightarrow> int \<Rightarrow> bool" where
  "in_spec_box d px py \<longleftrightarrow>
     \<bar>real_of_int px - d_x d\<bar> < (9 / 10) * real_of_int (d_size d) / 2 \<and>
     \<bar>real_of_int py - d_y d\<bar> < (6 / 10) * real_of_int (d_size d) / 2"

text \<open>A round that the timer has ended, and a round with an empty clip and one target hit.\<close>

definition st_timeup :: state where
  "st_timeup = (new_game rd0)\<lparr> time_left := 0, game_over := True, over_reason := ''TIME'S UP!'' \<rparr>"

definition st_empty :: state where
  "st_empty = (new_game rd0)\<lparr> ammo := 0, score := 100,
     ducks := [duck_shot, Duck DUCK_BASE_SPEED (rd0 1), Duck DUCK_BASE_SPEED (rd0 2)] \<rparr>"

text \<open>A fresh round after one frame of ten seconds: all three targets have escaped.\<close>

definition st_three_left :: state where
  "st_three_left = (new_game rd0)\<lparr> lives := 3, time_left := 50 \<rparr>"

text \<open>
  A round in play with the reticle at the centre and three Flying targets that all move
  right from the same \<open>x\<close>: the states of a round in which every shot misses.
\<close>

definition poised :: "int \<Rightarrow> int \<Rightarrow> real \<Rightarrow> real \<Rightarrow> state \<Rightarrow> bool" where
  "poised a l x t st \<longleftrightarrow>
     \<not> game_over st \<and> ammo st = a \<and> lives st = l \<and> time_left st = t \<and>
     mx st = 640 \<and> my st = 360 \<and> speed st = 180 \<and> length (ducks st) = 3 \<and>
     (\<forall>d \<in> set (ducks st).
        d_alive d \<and> \<not> d_hit d \<and> d_dir d = 1 \<and> d_size d = 48 \<and> d_x d = x)"

text \<open>A frame of \<open>ms\<close> milliseconds with one fire trigger and no mouse motion.\<close>

definition click_frame :: "nat \<Rightarrow> input" where
  "click_frame ms = inp0 ms [MOUSEBUTTONDOWN 1] (0, 0)"

text \<open>The state on which the out-of-ammo check of a tick runs (line 409).\<close>

definition before_check :: "input \<Rightarrow> bool \<Rightarrow> state \<Rightarrow> state" where
  "before_check inp sh st = shoot_step inp sh (timer_step (dt_of inp) (mouse_step (in_rel inp) st))"

text \<open>
  The off-screen test in the words of the specification. The body of a target is drawn
  \<open>size\<close> wide, centred on \<open>x\<close> (line 149), so its half-width is half of \<open>size\<close>.
\<close>

definition body_half_width :: "duck \<Rightarrow> real" where
  "body_half_width d = real_of_int (d_size d) / 2"

definition beyond_twice_half_width :: "duck \<Rightarrow> bool" where
  "beyond_twice_half_width d \<longleftrightarrow>
     d_x d < - (2 * body_half_width d) \<or> real_of_int WIN_W + 2 * body_half_width d < d_x d"


section \<open>Constants unfolded\<close>

lemmas consts_defs =
  WIN_W_def WIN_H_def MAX_DUCKS_def STARTING_LIVES_def STARTING_AMMO_def
  GAME_DURATION_def DUCK_BASE_SPEED_def SPEED_INCREMENT_def MAX_SPEED_def FLAP_SPEED_def

section \<open>Rounding and the hit test\<close>

lemma round_even_error: "\<bar>of_int (round_even r) - r\<bar> \<le> 1 / 2"
proof -
  have "of_int \<lfloor>r\<rfloor> \<le> r" "r < of_int \<lfloor>r\<rfloor> + 1" by linarith+
  then show ?thesis by (auto simp: round_even_def Let_def)
qed

lemma dbl_error: "\<bar>dbl x - x\<bar> \<le> \<bar>x\<bar> / 2 ^ 53"
proof (cases "x = 0")
  case True
  then show ?thesis by (simp add: dbl_def)
next
  case False
  define e where "e = \<lfloor>log 2 \<bar>x\<bar>\<rfloor>"
  define q :: real where "q = 2 powr (of_int e - 52)"
  have q0: "0 < q" by (simp add: q_def)
  from False have ax: "0 < \<bar>x\<bar>" by simp
  have "of_int e \<le> log 2 \<bar>x\<bar>" by (simp add: e_def)
  then have "2 powr of_int e \<le> 2 powr log 2 \<bar>x\<bar>" by simp
  with ax have pe: "2 powr of_int e \<le> \<bar>x\<bar>" by simp
  have qe: "q = 2 powr of_int e / 2 ^ 52"
    by (simp add: q_def powr_diff)
  have d: "dbl x = of_int (round_even (x / q)) * q"
    using False by (simp add: dbl_def Let_def q_def e_def)
  have "dbl x - x = (of_int (round_even (x / q)) - x / q) * q"
    using q0 by (simp add: d field_simps)
  then have "\<bar>dbl x - x\<bar> = \<bar>of_int (round_even (x / q)) - x / q\<bar> * q"
    using q0 by (simp add: abs_mult)
  also have "\<dots> \<le> (1 / 2) * q"
    using round_even_error[of "x / q"] q0 by (intro mult_right_mono) simp_all
  also have "\<dots> = 2 powr of_int e / 2 ^ 53" by (simp add: qe)
  also have "\<dots> \<le> \<bar>x\<bar> / 2 ^ 53" using pe by (simp add: divide_right_mono)
  finally show ?thesis .
qed


lemma dbl_abs_bounds:
  "\<bar>x\<bar> * (1 - 1 / 2 ^ 53) \<le> \<bar>dbl x\<bar>" "\<bar>dbl x\<bar> \<le> \<bar>x\<bar> * (1 + 1 / 2 ^ 53)"
proof -
  define D where "D = \<bar>dbl x - x\<bar>"
  define X where "X = \<bar>x\<bar>"
  define Y where "Y = \<bar>dbl x\<bar>"
  have e: "D \<le> X / 2 ^ 53" unfolding D_def X_def by (rule dbl_error)
  have t: "X \<le> Y + D" "Y \<le> X + D" unfolding D_def X_def Y_def by linarith+
  have "X * (1 - 1 / 2 ^ 53) = X - X / 2 ^ 53" by (simp add: algebra_simps)
  also have "\<dots> \<le> Y" using e t(1) by linarith
  finally show "\<bar>x\<bar> * (1 - 1 / 2 ^ 53) \<le> \<bar>dbl x\<bar>" unfolding X_def Y_def .
  have "Y \<le> X + X / 2 ^ 53" using e t(2) by linarith
  also have "\<dots> = X * (1 + 1 / 2 ^ 53)" by (simp add: algebra_simps)
  finally show "\<bar>dbl x\<bar> \<le> \<bar>x\<bar> * (1 + 1 / 2 ^ 53)" unfolding X_def Y_def .
qed

lemma dbl_nonneg:
  assumes "0 \<le> x"
  shows "0 \<le> dbl x"
proof -
  have "x * (1 / 2 ^ 53) \<le> x" using assms by (intro mult_left_le) simp_all
  then have "x / 2 ^ 53 \<le> x" by simp
  with dbl_error[of x] assms show ?thesis by linarith
qed

lemma dbl_pos_bounds:
  assumes "0 \<le> x"
  shows "x * (1 - 1 / 2 ^ 53) \<le> dbl x" "dbl x \<le> x * (1 + 1 / 2 ^ 53)"
  using dbl_abs_bounds[of x] dbl_nonneg[OF assms] assms by simp_all

lemma num_inside: "(1 - 1 / 10 ^ 15) * (1 + 1 / 2 ^ 53) < (1 - 1 / 2 ^ 53) * (1 - 1 / 2 ^ 53 :: real)"
  by simp

lemma num_outside: "(1 + 1 / 2 ^ 53) * (1 + 1 / 2 ^ 53) \<le> (1 + 1 / 10 ^ 15) * (1 - 1 / 2 ^ 53 :: real)"
  by simp

text \<open>The half-extent \<open>s * c\<close> as the machine computes it from the literal \<open>c\<close>.\<close>

lemma dbl_half_extent:
  assumes s: "0 \<le> s" and c: "0 \<le> c"
  shows "s * c * ((1 - 1 / 2 ^ 53) * (1 - 1 / 2 ^ 53)) \<le> dbl (s * dbl c)"
    and "dbl (s * dbl c) \<le> s * c * ((1 + 1 / 2 ^ 53) * (1 + 1 / 2 ^ 53))"
proof -
  define lo :: real where "lo = 1 - 1 / 2 ^ 53"
  define hi :: real where "hi = 1 + 1 / 2 ^ 53"
  have lo0: "0 \<le> lo" and hi0: "0 \<le> hi" by (simp_all add: lo_def hi_def)
  note b = dbl_pos_bounds[OF c, folded lo_def hi_def]
  from s dbl_nonneg[OF c] have p: "0 \<le> s * dbl c" by simp
  note b2 = dbl_pos_bounds[OF p, folded lo_def hi_def]
  have "s * (c * lo) \<le> s * dbl c" using b(1) s by (rule mult_left_mono)
  then have "s * (c * lo) * lo \<le> s * dbl c * lo" using lo0 by (rule mult_right_mono)
  also note b2(1)
  finally have "s * c * (lo * lo) \<le> dbl (s * dbl c)" by (simp add: mult.assoc)
  then show "s * c * ((1 - 1 / 2 ^ 53) * (1 - 1 / 2 ^ 53)) \<le> dbl (s * dbl c)"
    unfolding lo_def .
  have "s * dbl c \<le> s * (c * hi)" using b(2) s by (rule mult_left_mono)
  then have "s * dbl c * hi \<le> s * (c * hi) * hi" using hi0 by (rule mult_right_mono)
  with b2(2) have "dbl (s * dbl c) \<le> s * (c * hi) * hi" by linarith
  then have "dbl (s * dbl c) \<le> s * c * (hi * hi)" by (simp add: mult.assoc)
  then show "dbl (s * dbl c) \<le> s * c * ((1 + 1 / 2 ^ 53) * (1 + 1 / 2 ^ 53))"
    unfolding hi_def .
qed

text \<open>One axis of the hit test: \<open>\<bar>dbl z\<bar> < dbl (s * dbl c)\<close>.\<close>

lemma hit_axis_inside:
  assumes a: "0 < s * c" and s: "0 \<le> s" and c: "0 \<le> c"
    and z: "\<bar>z\<bar> \<le> (1 - 1 / 10 ^ 15) * (s * c)"
  shows "\<bar>dbl z\<bar> < dbl (s * dbl c)"
proof -
  define hi :: real where "hi = 1 + 1 / 2 ^ 53"
  have hi0: "0 \<le> hi" by (simp add: hi_def)
  have "\<bar>dbl z\<bar> \<le> \<bar>z\<bar> * hi" unfolding hi_def by (rule dbl_abs_bounds)
  also have "\<dots> \<le> (1 - 1 / 10 ^ 15) * (s * c) * hi"
    using z hi0 by (rule mult_right_mono)
  also have "\<dots> = (s * c) * ((1 - 1 / 10 ^ 15) * hi)" by simp
  also have "\<dots> < (s * c) * ((1 - 1 / 2 ^ 53) * (1 - 1 / 2 ^ 53))"
    unfolding hi_def using num_inside a by (rule mult_strict_left_mono)
  also have "\<dots> \<le> dbl (s * dbl c)" by (rule dbl_half_extent(1)[OF s c])
  finally show ?thesis .
qed

lemma hit_axis_outside:
  assumes a: "0 < s * c" and s: "0 \<le> s" and c: "0 \<le> c"
    and t: "\<bar>dbl z\<bar> < dbl (s * dbl c)"
  shows "\<bar>z\<bar> < (1 + 1 / 10 ^ 15) * (s * c)"
proof -
  define lo :: real where "lo = 1 - 1 / 2 ^ 53"
  have lo0: "0 < lo" by (simp add: lo_def)
  from a have a0: "0 \<le> s * c" by simp
  have "\<bar>z\<bar> * lo \<le> \<bar>dbl z\<bar>" unfolding lo_def by (rule dbl_abs_bounds)
  also note t
  also have "dbl (s * dbl c) \<le> (s * c) * ((1 + 1 / 2 ^ 53) * (1 + 1 / 2 ^ 53))"
    by (rule dbl_half_extent(2)[OF s c])
  also have "\<dots> \<le> (s * c) * ((1 + 1 / 10 ^ 15) * lo)"
    unfolding lo_def using num_outside a0 by (rule mult_left_mono)
  also have "\<dots> = (1 + 1 / 10 ^ 15) * (s * c) * lo" by simp
  finally have "\<bar>z\<bar> * lo < (1 + 1 / 10 ^ 15) * (s * c) * lo" .
  with lo0 show ?thesis by (simp only: mult_less_cancel_right_pos)
qed

text \<open>Evaluating \<open>dbl\<close> once the binade of the argument is known.\<close>

lemma dbl_binade:
  assumes "2 powr of_int e \<le> \<bar>x\<bar>" "\<bar>x\<bar> < 2 powr (of_int e + 1)"
  shows "dbl x = of_int (round_even (x / 2 powr (of_int e - 52))) * 2 powr (of_int e - 52)"
proof -
  have "0 < (2::real) powr of_int e" by simp
  with assms(1) have x0: "0 < \<bar>x\<bar>" by linarith
  then have nz: "x \<noteq> 0" by simp
  from assms(1) x0 have "of_int e \<le> log 2 \<bar>x\<bar>" by (simp add: le_log_iff)
  moreover from assms(2) x0 have "log 2 \<bar>x\<bar> < of_int e + 1" by (simp add: log_less_iff)
  ultimately have "\<lfloor>log 2 \<bar>x\<bar>\<rfloor> = e" by linarith
  with nz show ?thesis by (simp add: dbl_def Let_def)
qed

lemma dbl_below_one:
  assumes "1 / 2 \<le> \<bar>x\<bar>" "\<bar>x\<bar> < 1"
  shows "dbl x = of_int (round_even (x * 2 ^ 53)) / 2 ^ 53"
proof -
  have d: "dbl x = of_int (round_even (x / 2 powr (of_int (- 1) - 52))) * 2 powr (of_int (- 1) - 52)"
    using assms by (intro dbl_binade) (simp_all add: powr_minus_divide)
  have q: "(2::real) powr (of_int (- 1) - 52) = 1 / 2 ^ 53"
    by (simp add: powr_minus_divide)
  show ?thesis unfolding d q by simp
qed

lemma dbl_sixteen:
  assumes "16 \<le> \<bar>x\<bar>" "\<bar>x\<bar> < 32"
  shows "dbl x = of_int (round_even (x * 2 ^ 48)) / 2 ^ 48"
proof -
  have d: "dbl x = of_int (round_even (x / 2 powr (of_int 4 - 52))) * 2 powr (of_int 4 - 52)"
    using assms by (intro dbl_binade) simp_all
  have q: "(2::real) powr (of_int 4 - 52) = 1 / 2 ^ 48"
    by (simp add: powr_minus_divide)
  show ?thesis unfolding d q by simp
qed

lemma dbl_six_tenths: "dbl (6 / 10) = 5404319552844595 / 2 ^ 53"
  by (simp add: dbl_below_one round_even_def)

lemma dbl_three_fifths: "dbl (3 / 5) = 5404319552844595 / 9007199254740992"
  using dbl_six_tenths by simp

lemma dbl_hh_48: "dbl (48 * dbl (6 / 10)) = 2026619832316723 / 70368744177664"
proof -
  have "dbl (48 * dbl (6 / 10)) = dbl (16212958658533785 / 562949953421312)"
    by (simp add: dbl_three_fifths)
  also have "\<dots> = 2026619832316723 / 70368744177664"
    by (simp add: dbl_sixteen round_even_def)
  finally show ?thesis .
qed

text \<open>The hit test within and beyond the box, up to the rounding.\<close>

lemma collides_inside:
  assumes s: "0 < d_size d"
    and x: "\<bar>real_of_int px - d_x d\<bar> \<le> (1 - 1 / 10 ^ 15) * (real_of_int (d_size d) * (9 / 10))"
    and y: "\<bar>real_of_int py - d_y d\<bar> \<le> (1 - 1 / 10 ^ 15) * (real_of_int (d_size d) * (6 / 10))"
  shows "collides d px py"
proof -
  from s have p: "0 \<le> real_of_int (d_size d)" "0 < real_of_int (d_size d) * (9 / 10)"
    "0 < real_of_int (d_size d) * (6 / 10)" by simp_all
  have "\<bar>dbl (real_of_int px - d_x d)\<bar> < dbl (real_of_int (d_size d) * dbl (9 / 10))"
    using p(2) p(1) _ x by (rule hit_axis_inside) simp
  moreover have "\<bar>dbl (real_of_int py - d_y d)\<bar> < dbl (real_of_int (d_size d) * dbl (6 / 10))"
    using p(3) p(1) _ y by (rule hit_axis_inside) simp
  ultimately show ?thesis unfolding collides_def Let_def by (rule conjI)
qed

lemma collides_outside:
  assumes s: "0 < d_size d" and c: "collides d px py"
  shows "\<bar>real_of_int px - d_x d\<bar> < (1 + 1 / 10 ^ 15) * (real_of_int (d_size d) * (9 / 10))"
    and "\<bar>real_of_int py - d_y d\<bar> < (1 + 1 / 10 ^ 15) * (real_of_int (d_size d) * (6 / 10))"
proof -
  from s have p: "0 \<le> real_of_int (d_size d)" "0 < real_of_int (d_size d) * (9 / 10)"
    "0 < real_of_int (d_size d) * (6 / 10)" by simp_all
  from c have t: "\<bar>dbl (real_of_int px - d_x d)\<bar> < dbl (real_of_int (d_size d) * dbl (9 / 10))"
    "\<bar>dbl (real_of_int py - d_y d)\<bar> < dbl (real_of_int (d_size d) * dbl (6 / 10))"
    unfolding collides_def Let_def by (rule conjunct1, rule conjunct2)
  show "\<bar>real_of_int px - d_x d\<bar> < (1 + 1 / 10 ^ 15) * (real_of_int (d_size d) * (9 / 10))"
    using p(2) p(1) _ t(1) by (rule hit_axis_outside) simp
  show "\<bar>real_of_int py - d_y d\<bar> < (1 + 1 / 10 ^ 15) * (real_of_int (d_size d) * (6 / 10))"
    using p(3) p(1) _ t(2) by (rule hit_axis_outside) simp
qed

text \<open>For the targets of the game, of size 48: clear misses and clear hits.\<close>

lemma collides_far:
  assumes "d_size d = 48" "44 \<le> \<bar>real_of_int px - d_x d\<bar>"
  shows "collides d px py = False"
proof -
  have "\<not> collides d px py"
  proof
    assume c: "collides d px py"
    from assms(1) have "0 < d_size d" by simp
    from collides_outside(1)[OF this c] assms show False by simp
  qed
  then show ?thesis by simp
qed

lemma collides_near:
  assumes "d_size d = 48" "\<bar>real_of_int px - d_x d\<bar> \<le> 43" "\<bar>real_of_int py - d_y d\<bar> \<le> 28"
  shows "collides d px py"
proof (rule collides_inside)
  show "0 < d_size d" using assms(1) by simp
  show "\<bar>real_of_int px - d_x d\<bar> \<le> (1 - 1 / 10 ^ 15) * (real_of_int (d_size d) * (9 / 10))"
    using assms(1,2) by simp
  show "\<bar>real_of_int py - d_y d\<bar> \<le> (1 - 1 / 10 ^ 15) * (real_of_int (d_size d) * (6 / 10))"
    using assms(1,3) by simp
qed

section \<open>The shot loop\<close>

lemma shoot_loop_miss:
  "\<forall>d \<in> set ds. \<not> eligible px py d \<Longrightarrow> shoot_loop rp px py ds st = (ds, st, False)"
  by (induction ds) (auto simp: eligible_def)

lemma shoot_loop_hit:
  "i < length ds \<Longrightarrow> eligible px py (ds ! i) \<Longrightarrow> \<forall>j < i. \<not> eligible px py (ds ! j) \<Longrightarrow>
   shoot_loop rp px py ds st =
     (ds[i := (ds ! i)\<lparr> d_hit := True, d_hit_timer := 20 \<rparr>], hit_state rp (ds ! i) st, True)"
proof (induction ds arbitrary: i)
  case Nil
  then show ?case by simp
next
  case (Cons d ds)
  show ?case
  proof (cases i)
    case 0
    with Cons.prems show ?thesis
      by (simp add: eligible_def shoot_def hit_state_def Let_def)
  next
    case (Suc k)
    with Cons.prems have d: "\<not> eligible px py d" by auto
    from Suc Cons.prems have k: "k < length ds" "eligible px py (ds ! k)"
      "\<forall>j < k. \<not> eligible px py (ds ! j)" by auto
    from Cons.IH[OF k] d Suc show ?thesis
      by (auto simp: eligible_def)
  qed
qed

lemma first_eligible:
  assumes "\<exists>d \<in> set ds. eligible px py d"
  shows "\<exists>i < length ds. eligible px py (ds ! i) \<and> (\<forall>j < i. \<not> eligible px py (ds ! j))"
proof -
  from assms obtain n where n: "n < length ds \<and> eligible px py (ds ! n)"
    by (auto simp: in_set_conv_nth)
  define i where "i = (LEAST n. n < length ds \<and> eligible px py (ds ! n))"
  have i: "i < length ds \<and> eligible px py (ds ! i)"
    unfolding i_def using n by (rule LeastI)
  have "\<forall>j < i. \<not> eligible px py (ds ! j)"
  proof (intro allI impI notI)
    fix j assume j: "j < i" "eligible px py (ds ! j)"
    with i have "j < length ds \<and> eligible px py (ds ! j)" by simp
    then have "i \<le> j" unfolding i_def by (rule Least_le)
    with j show False by simp
  qed
  with i show ?thesis by blast
qed

lemma shoot_loop_frame:
  "shoot_loop rp px py ds st = (ds', st', h) \<Longrightarrow>
     mx st' = mx st \<and> my st' = my st \<and> ammo st' = ammo st \<and> lives st' = lives st \<and>
     time_left st' = time_left st \<and> game_over st' = game_over st \<and>
     over_reason st' = over_reason st \<and> ducks st' = ducks st \<and> prev_btn st' = prev_btn st"
  by (induction ds arbitrary: ds' st' h) (auto simp: Let_def split: if_splits prod.splits)

lemma shoot_loop_result:
  "shoot_loop rp px py ds st = (ds, st, False) \<and> (\<forall>d \<in> set ds. \<not> eligible px py d) \<or>
   (\<exists>i < length ds. eligible px py (ds ! i) \<and> (\<forall>j < i. \<not> eligible px py (ds ! j)) \<and>
      shoot_loop rp px py ds st =
        (ds[i := (ds ! i)\<lparr> d_hit := True, d_hit_timer := 20 \<rparr>], hit_state rp (ds ! i) st, True))"
proof (cases "\<exists>d \<in> set ds. eligible px py d")
  case True
  from first_eligible[OF True] obtain i where
    "i < length ds" "eligible px py (ds ! i)" "\<forall>j < i. \<not> eligible px py (ds ! j)" by blast
  with shoot_loop_hit[of i ds px py rp st] show ?thesis by blast
next
  case False
  with shoot_loop_miss[of ds px py rp st] show ?thesis by blast
qed

section \<open>Shot resolution in closed form\<close>

lemma shoot_step_skip: "\<not> (sh \<and> 0 < ammo st) \<Longrightarrow> shoot_step inp sh st = st"
  by (auto simp: shoot_step_def)

lemma shoot_step_miss:
  assumes "0 < ammo st" "\<forall>d \<in> set (ducks st). \<not> eligible (mx st) (my st) d"
  shows "shoot_step inp True st =
           st\<lparr> ammo := ammo st - 1, particles := particles st @ muzzle inp st \<rparr>"
  using assms shoot_loop_miss[of "ducks st" "mx st" "my st" "in_burst inp" "st\<lparr>ammo := ammo st - 1\<rparr>"]
  by (simp add: shoot_step_def muzzle_def Let_def)

lemma shoot_step_hit:
  assumes "0 < ammo st" "i < length (ducks st)" "eligible (mx st) (my st) (ducks st ! i)"
    "\<forall>j < i. \<not> eligible (mx st) (my st) (ducks st ! j)"
  shows "shoot_step inp True st =
           st\<lparr> ammo := ammo st - 1,
               score := score st + 100,
               speed := min (speed st + SPEED_INCREMENT) MAX_SPEED,
               ducks := (ducks st)[i := (ducks st ! i)\<lparr> d_hit := True, d_hit_timer := 20 \<rparr>],
               particles := (particles st @
                  map (\<lambda>k. Particle (d_x (ducks st ! i)) (d_y (ducks st ! i)) (in_burst inp k)) [0..<18]) @
                  muzzle inp st \<rparr>"
  using assms shoot_loop_hit[of i "ducks st" "mx st" "my st" "in_burst inp" "st\<lparr>ammo := ammo st - 1\<rparr>"]
  by (simp add: shoot_step_def muzzle_def Let_def hit_state_def)

section \<open>The duck loop\<close>

lemma lose_life_fields [simp]:
  "speed (lose_life st) = speed st" "ammo (lose_life st) = ammo st"
  "score (lose_life st) = score st" "time_left (lose_life st) = time_left st"
  "mx (lose_life st) = mx st" "my (lose_life st) = my st"
  "particles (lose_life st) = particles st" "ducks (lose_life st) = ducks st"
  "prev_btn (lose_life st) = prev_btn st"
  by (simp_all add: lose_life_def)

lemma update_ducks_Cons:
  "update_ducks dt rd i (d # rest) st =
     (let d1 = update d dt (speed st);
          st2 = (if escapes dt (speed st) d then lose_life st else st);
          d2 = (if escapes dt (speed st) d \<or> \<not> d_alive d1
                then reset d1 (speed st) (rd i) else d1)
      in (d2 # fst (update_ducks dt rd (Suc i) rest st2),
          snd (update_ducks dt rd (Suc i) rest st2)))"
  by (simp add: Let_def escapes_def lose_life_def split: prod.splits)

lemma update_ducks_frame:
  "mx (snd (update_ducks dt rd i ds st)) = mx st"
  "my (snd (update_ducks dt rd i ds st)) = my st"
  "ammo (snd (update_ducks dt rd i ds st)) = ammo st"
  "score (snd (update_ducks dt rd i ds st)) = score st"
  "time_left (snd (update_ducks dt rd i ds st)) = time_left st"
  "speed (snd (update_ducks dt rd i ds st)) = speed st"
  "particles (snd (update_ducks dt rd i ds st)) = particles st"
  "ducks (snd (update_ducks dt rd i ds st)) = ducks st"
  "prev_btn (snd (update_ducks dt rd i ds st)) = prev_btn st"
  by (induction ds arbitrary: i st; simp add: update_ducks_Cons Let_def del: update_ducks.simps(2))+

lemma update_ducks_length: "length (fst (update_ducks dt rd i ds st)) = length ds"
  by (induction ds arbitrary: i st) (simp_all add: update_ducks_Cons Let_def del: update_ducks.simps(2))

lemma update_ducks_nth:
  "j < length ds \<Longrightarrow>
   fst (update_ducks dt rd i ds st) ! j =
     (let d1 = update (ds ! j) dt (speed st)
      in if escapes dt (speed st) (ds ! j) \<or> \<not> d_alive d1
         then reset d1 (speed st) (rd (i + j)) else d1)"
proof (induction ds arbitrary: i j st)
  case Nil
  then show ?case by simp
next
  case (Cons d ds)
  show ?case
  proof (cases j)
    case 0
    then show ?thesis by (simp add: update_ducks_Cons Let_def del: update_ducks.simps(2))
  next
    case (Suc k)
    with Cons.prems have k: "k < length ds" by simp
    from Cons.IH[OF k] Suc show ?thesis
      by (simp add: update_ducks_Cons Let_def del: update_ducks.simps(2))
  qed
qed

lemma lose_life_lives: "0 \<le> lives st \<Longrightarrow> lives (lose_life st) = max 0 (lives st - 1)"
  by (simp add: lose_life_def)

lemma update_ducks_lives:
  "0 \<le> lives st \<Longrightarrow>
   lives (snd (update_ducks dt rd i ds st)) =
     max 0 (lives st - int (length (filter (escapes dt (speed st)) ds)))"
proof (induction ds arbitrary: i st)
  case Nil
  then show ?case by simp
next
  case (Cons d ds)
  show ?case
  proof (cases "escapes dt (speed st) d")
    case True
    have l: "0 \<le> lives (lose_life st)" by (simp add: lose_life_def)
    from Cons.IH[OF l] True Cons.prems show ?thesis
      by (simp add: update_ducks_Cons Let_def lose_life_lives del: update_ducks.simps(2))
  next
    case False
    with Cons.IH[OF Cons.prems] show ?thesis
      by (simp add: update_ducks_Cons Let_def del: update_ducks.simps(2))
  qed
qed

lemma update_ducks_over:
  "0 \<le> lives st \<Longrightarrow>
   (let k = int (length (filter (escapes dt (speed st)) ds));
        st' = snd (update_ducks dt rd i ds st)
    in if 0 < k \<and> lives st - k \<le> 0
       then game_over st' \<and> over_reason st' = ''GAME OVER!''
       else game_over st' = game_over st \<and> over_reason st' = over_reason st)"
proof (induction ds arbitrary: i st)
  case Nil
  then show ?case by simp
next
  case (Cons d ds)
  show ?case
  proof (cases "escapes dt (speed st) d")
    case True
    have l: "0 \<le> lives (lose_life st)" by (simp add: lose_life_def)
    from Cons.IH[of "lose_life st" "Suc i", OF l] True Cons.prems show ?thesis
      by (simp add: update_ducks_Cons Let_def del: update_ducks.simps(2))
         (auto simp: lose_life_def split: if_splits)
  next
    case False
    with Cons.IH[of st "Suc i", OF Cons.prems] show ?thesis
      by (simp add: update_ducks_Cons Let_def del: update_ducks.simps(2))
  qed
qed

section \<open>The event loop\<close>

lemma new_game_playing [simp]: "\<not> game_over (new_game rd)"
  by (simp add: new_game_def)

lemma handle_events_playing:
  "\<not> game_over st \<Longrightarrow>
   handle_events rd es st sh = None \<or>
   handle_events rd es st sh = Some (st, sh \<or> MOUSEBUTTONDOWN 1 \<in> set es)"
proof (induction es arbitrary: sh)
  case Nil
  then show ?case by simp
next
  case (Cons e es)
  from Cons.IH[OF Cons.prems, of sh] Cons.IH[OF Cons.prems, of True] Cons.prems show ?case
    by (cases e) auto
qed

lemma handle_events_ended:
  "game_over st \<Longrightarrow> KEYDOWN K_r \<notin> set es \<Longrightarrow>
   handle_events rd es st sh = None \<or> handle_events rd es st sh = Some (st, sh)"
proof (induction es)
  case Nil
  then show ?case by simp
next
  case (Cons e es)
  then show ?case by (cases e) auto
qed

lemma handle_events_state:
  "handle_events rd es st sh = Some (st', sh') \<Longrightarrow> st' = st \<or> st' = new_game rd"
proof (induction es arbitrary: st sh)
  case Nil
  then show ?case by simp
next
  case (Cons e es)
  show ?case
  proof (cases e)
    case (KEYDOWN k)
    show ?thesis
    proof (cases "k = K_r \<and> game_over st")
      case True
      with Cons.prems KEYDOWN have "handle_events rd es (new_game rd) sh = Some (st', sh')"
        by simp
      from Cons.IH[OF this] show ?thesis by simp
    next
      case False
      with Cons.prems KEYDOWN have "handle_events rd es st sh = Some (st', sh')"
        by (auto split: if_splits)
      from Cons.IH[OF this] show ?thesis .
    qed
  next
    case (MOUSEBUTTONDOWN b)
    with Cons.prems have "handle_events rd es st sh = Some (st', sh') \<or>
       handle_events rd es st True = Some (st', sh')" by (auto split: if_splits)
    with Cons.IH show ?thesis by blast
  qed (use Cons in auto)
qed

section \<open>Fields the phases leave alone\<close>

lemma mouse_step_fields [simp]:
  "score (mouse_step rel st) = score st" "lives (mouse_step rel st) = lives st"
  "ammo (mouse_step rel st) = ammo st" "time_left (mouse_step rel st) = time_left st"
  "speed (mouse_step rel st) = speed st" "ducks (mouse_step rel st) = ducks st"
  "particles (mouse_step rel st) = particles st" "game_over (mouse_step rel st) = game_over st"
  "over_reason (mouse_step rel st) = over_reason st"
  by (simp_all add: mouse_step_def Let_def)

lemma timer_step_fields [simp]:
  "score (timer_step dt st) = score st" "lives (timer_step dt st) = lives st"
  "ammo (timer_step dt st) = ammo st" "speed (timer_step dt st) = speed st"
  "ducks (timer_step dt st) = ducks st" "particles (timer_step dt st) = particles st"
  "mx (timer_step dt st) = mx st" "my (timer_step dt st) = my st"
  by (simp_all add: timer_step_def Let_def)

lemma shoot_step_cases:
  "shoot_step inp sh st = st \<and> \<not> (sh \<and> 0 < ammo st) \<or>
   sh \<and> 0 < ammo st \<and> (\<forall>d \<in> set (ducks st). \<not> eligible (mx st) (my st) d) \<and>
     shoot_step inp sh st = st\<lparr> ammo := ammo st - 1, particles := particles st @ muzzle inp st \<rparr> \<or>
   sh \<and> 0 < ammo st \<and>
     (\<exists>i < length (ducks st). eligible (mx st) (my st) (ducks st ! i) \<and>
        (\<forall>j < i. \<not> eligible (mx st) (my st) (ducks st ! j)) \<and>
        shoot_step inp sh st =
          st\<lparr> ammo := ammo st - 1,
              score := score st + 100,
              speed := min (speed st + SPEED_INCREMENT) MAX_SPEED,
              ducks := (ducks st)[i := (ducks st ! i)\<lparr> d_hit := True, d_hit_timer := 20 \<rparr>],
              particles := (particles st @
                 map (\<lambda>k. Particle (d_x (ducks st ! i)) (d_y (ducks st ! i)) (in_burst inp k)) [0..<18]) @
                 muzzle inp st \<rparr>)"
proof (cases "sh \<and> 0 < ammo st")
  case False
  then show ?thesis using shoot_step_skip[of sh st inp] by blast
next
  case True
  then have sh: "sh = True" and a: "0 < ammo st" by simp_all
  show ?thesis
  proof (cases "\<exists>d \<in> set (ducks st). eligible (mx st) (my st) d")
    case False
    then have "\<forall>d \<in> set (ducks st). \<not> eligible (mx st) (my st) d" by blast
    with shoot_step_miss[OF a this, of inp] sh a show ?thesis by blast
  next
    case True
    from first_eligible[OF True] obtain i where i: "i < length (ducks st)"
      "eligible (mx st) (my st) (ducks st ! i)"
      "\<forall>j < i. \<not> eligible (mx st) (my st) (ducks st ! j)" by blast
    from shoot_step_hit[OF a i, of inp] i sh a show ?thesis by blast
  qed
qed

lemma shoot_step_fields [simp]:
  "lives (shoot_step inp sh st) = lives st" "time_left (shoot_step inp sh st) = time_left st"
  "game_over (shoot_step inp sh st) = game_over st"
  "over_reason (shoot_step inp sh st) = over_reason st"
  "mx (shoot_step inp sh st) = mx st" "my (shoot_step inp sh st) = my st"
  "length (ducks (shoot_step inp sh st)) = length (ducks st)"
  using shoot_step_cases[of inp sh st] by auto

lemma ammo_step_fields [simp]:
  "score (ammo_step st) = score st" "lives (ammo_step st) = lives st"
  "ammo (ammo_step st) = ammo st" "time_left (ammo_step st) = time_left st"
  "speed (ammo_step st) = speed st" "ducks (ammo_step st) = ducks st"
  "particles (ammo_step st) = particles st" "mx (ammo_step st) = mx st" "my (ammo_step st) = my st"
  by (simp_all add: ammo_step_def)

lemma ducks_step_fields [simp]:
  "score (ducks_step inp st) = score st" "ammo (ducks_step inp st) = ammo st"
  "time_left (ducks_step inp st) = time_left st" "speed (ducks_step inp st) = speed st"
  "particles (ducks_step inp st) = particles st"
  "mx (ducks_step inp st) = mx st" "my (ducks_step inp st) = my st"
  "ducks (ducks_step inp st) = fst (update_ducks (dt_of inp) (in_reset inp) 0 (ducks st) st)"
  "lives (ducks_step inp st) = lives (snd (update_ducks (dt_of inp) (in_reset inp) 0 (ducks st) st))"
  "game_over (ducks_step inp st) = game_over (snd (update_ducks (dt_of inp) (in_reset inp) 0 (ducks st) st))"
  "over_reason (ducks_step inp st) = over_reason (snd (update_ducks (dt_of inp) (in_reset inp) 0 (ducks st) st))"
  by (simp_all add: ducks_step_def case_prod_beta update_ducks_frame)

lemma particles_step_fields [simp]:
  "score (particles_step dt st) = score st" "lives (particles_step dt st) = lives st"
  "ammo (particles_step dt st) = ammo st" "time_left (particles_step dt st) = time_left st"
  "speed (particles_step dt st) = speed st" "ducks (particles_step dt st) = ducks st"
  "game_over (particles_step dt st) = game_over st"
  "over_reason (particles_step dt st) = over_reason st"
  "mx (particles_step dt st) = mx st" "my (particles_step dt st) = my st"
  by (simp_all add: particles_step_def Let_def)

section \<open>The invariant\<close>

lemma Duck_fields [simp]: "d_alive (Duck sp r)" "d_size (Duck sp r) = 48" "\<not> d_hit (Duck sp r)"
  by (simp_all add: Duck_def reset_def)

lemma reset_fields [simp]:
  "d_alive (reset d sp r)" "\<not> d_hit (reset d sp r)" "d_size (reset d sp r) = d_size d"
  "d_speed (reset d sp r) = sp"
  by (simp_all add: reset_def)

lemma update_fields [simp]:
  "d_size (update d dt sp) = d_size d" "d_hit (update d dt sp) = d_hit d"
  by (simp_all add: update_def Let_def)

lemma update_alive: "d_alive d \<Longrightarrow> \<not> d_hit d \<Longrightarrow> d_alive (update d dt sp)"
  by (simp add: update_def Let_def)

lemma state_ok_new_game: "state_ok (new_game rd)"
  by (simp add: state_ok_def new_game_def consts_defs)

lemma state_ok_mouse_step: "state_ok st \<Longrightarrow> state_ok (mouse_step rel st)"
  by (simp add: state_ok_def) (simp add: mouse_step_def Let_def WIN_W_def WIN_H_def min_def)

lemma state_ok_timer_step: "state_ok st \<Longrightarrow> state_ok (timer_step dt st)"
  by (simp add: state_ok_def) (simp add: timer_step_def Let_def)

lemma state_ok_shoot_step:
  assumes "state_ok st"
  shows "state_ok (shoot_step inp sh st)"
proof -
  have ds: "\<forall>d \<in> set (ducks (shoot_step inp sh st)). d_alive d \<and> d_size d = 48"
    using shoot_step_cases[of inp sh st] assms
    by (auto simp: state_ok_def dest!: set_update_subset_insert[THEN subsetD])
  have am: "0 \<le> ammo (shoot_step inp sh st) \<and> ammo (shoot_step inp sh st) \<le> STARTING_AMMO"
    using shoot_step_cases[of inp sh st] assms by (auto simp: state_ok_def)
  from ds am assms show ?thesis by (simp add: state_ok_def)
qed

lemma state_ok_ammo_step: "state_ok st \<Longrightarrow> state_ok (ammo_step st)"
  by (simp add: state_ok_def) (simp add: ammo_step_def)

lemma state_ok_ducks_step:
  assumes "state_ok st"
  shows "state_ok (ducks_step inp st)"
proof -
  let ?dt = "dt_of inp" and ?rd = "in_reset inp"
  let ?r = "update_ducks ?dt ?rd 0 (ducks st) st"
  let ?k = "int (length (filter (escapes ?dt (speed st)) (ducks st)))"
  from assms have l0: "0 \<le> lives st" by (simp add: state_ok_def)
  have lv: "lives (snd ?r) = max 0 (lives st - ?k)" by (rule update_ducks_lives[OF l0])
  have ov: "if 0 < ?k \<and> lives st - ?k \<le> 0
       then game_over (snd ?r) \<and> over_reason (snd ?r) = ''GAME OVER!''
       else game_over (snd ?r) = game_over st \<and> over_reason (snd ?r) = over_reason st"
    using update_ducks_over[OF l0, of ?dt "ducks st" ?rd 0] by (simp add: Let_def)
  have ds: "\<forall>d \<in> set (fst ?r). d_alive d \<and> d_size d = 48"
  proof -
    have "\<forall>j < length (fst ?r). d_alive (fst ?r ! j) \<and> d_size (fst ?r ! j) = 48"
    proof (intro allI impI)
      fix j assume "j < length (fst ?r)"
      then have j: "j < length (ducks st)" by (simp add: update_ducks_length)
      with assms have "d_alive (ducks st ! j) \<and> d_size (ducks st ! j) = 48"
        by (simp add: state_ok_def)
      then show "d_alive (fst ?r ! j) \<and> d_size (fst ?r ! j) = 48"
        by (simp add: update_ducks_nth[OF j] Let_def)
    qed
    then show ?thesis by (simp add: all_set_conv_all_nth)
  qed
  show ?thesis
  proof (cases "0 < ?k \<and> lives st - ?k \<le> 0")
    case True
    with ov lv ds assms show ?thesis
      by (simp add: state_ok_def update_ducks_length)
  next
    case False
    with ov lv ds assms show ?thesis
      by (auto simp: state_ok_def update_ducks_length)
  qed
qed

lemma state_ok_particles_step: "state_ok st \<Longrightarrow> state_ok (particles_step dt st)"
  by (simp add: state_ok_def)

lemma state_ok_tick: "state_ok st \<Longrightarrow> state_ok (tick inp sh st)"
  unfolding tick_def
  by (intro state_ok_particles_step state_ok_ducks_step state_ok_ammo_step
      state_ok_shoot_step state_ok_timer_step state_ok_mouse_step)

lemma state_ok_frame: "state_ok st \<Longrightarrow> frame inp st = Some st' \<Longrightarrow> state_ok st'"
proof -
  assume ok: "state_ok st" and f: "frame inp st = Some st'"
  from f obtain st1 sh where h: "handle_events (in_new inp) (in_events inp) st False = Some (st1, sh)"
    by (auto simp: frame_def split: option.splits)
  from handle_events_state[OF h] ok have ok1: "state_ok st1"
    by (auto simp: state_ok_new_game)
  from f h have "st' = st1 \<or> st' = tick inp sh st1"
    by (auto simp: frame_def split: if_splits)
  with ok1 show "state_ok st'" by (auto simp: state_ok_tick)
qed

lemma reachable_state_ok: "reachable st \<Longrightarrow> state_ok st"
  by (induction rule: reachable.induct) (auto simp: state_ok_new_game state_ok_frame)

section \<open>The concrete inputs are well formed\<close>

lemma rd0_ok: "duck_rand_ok (rd0 i)"
  by (simp add: rd0_def duck_rand_ok_def)

lemma pr0_ok: "particle_rand_ok (pr0 k)"
  by (simp add: pr0_def particle_rand_ok_def)

text \<open>Unfolding these evaluates a frame on a concrete state.\<close>

lemmas eval_defs =
  tick_def mouse_step_def timer_step_def shoot_step_def ammo_step_def ducks_step_def
  particles_step_def alive_count_def update_def is_offscreen_def collides_far shoot_def
  reset_def Duck_def Particle_def p_update_def new_game_def inp0_def rd0_def pr0_def
  dt_of_def consts_defs Let_def

lemma upt3: "[0..<3] = [0, 1, 2]"
  by (simp add: upt_rec)

lemma upt8: "[0..<8] = [0, 1, 2, 3, 4, 5, 6, 7]"
  by (simp add: upt_rec)

section \<open>Claims about a single target\<close>

text \<open>
  C8. \<^verbatim>\<open>shoot\<close> on a target that is not Flying (already hit, or gone) returns False and
  leaves the target as it is. On a Flying target it returns True, the target becomes
  Hit, and \<^verbatim>\<open>hit_timer\<close> is set to the constant 20: \<^verbatim>\<open>shoot\<close> has no time argument,
  the count is in frames.
\<close>

theorem shoot_flying_only:
  "(lifecycle d \<noteq> Flying \<longrightarrow> shoot d = (False, d)) \<and>
   (lifecycle d = Flying \<longrightarrow>
      fst (shoot d) = True \<and> lifecycle (snd (shoot d)) = Hit \<and>
      d_hit_timer (snd (shoot d)) = 20 \<and>
      snd (shoot d) = d\<lparr> d_hit := True, d_hit_timer := 20 \<rparr>)"
  by (simp add: lifecycle_def shoot_def)

theorem shoot_flying_only_witness:
  "lifecycle duck_shot \<noteq> Flying \<and> shoot duck_shot = (False, duck_shot) \<and>
   lifecycle duck_mid = Flying \<and> fst (shoot duck_mid) = True \<and>
   lifecycle (snd (shoot duck_mid)) = Hit \<and> d_hit_timer (snd (shoot duck_mid)) = 20"
proof -
  have a: "lifecycle duck_shot \<noteq> Flying"
    by (simp add: lifecycle_def duck_shot_def duck_mid_def)
  have b: "lifecycle duck_mid = Flying"
    by (simp add: lifecycle_def duck_mid_def)
  from shoot_flying_only[of duck_shot] shoot_flying_only[of duck_mid] a b
  show ?thesis by blast
qed

section \<open>Claims about every reachable state\<close>

lemma tick_reticle:
  "mx (tick inp sh st) = mx (mouse_step (in_rel inp) st)"
  "my (tick inp sh st) = my (mouse_step (in_rel inp) st)"
  by (simp_all add: tick_def)

lemma frame_no_events:
  "\<not> game_over st \<Longrightarrow> frame (inp0 ms [] rel) st = Some (tick (inp0 ms [] rel) False st)"
  by (simp add: frame_def inp0_def)

text \<open>
  C10. Whatever the sequence of pointer deltas, of any sign and size, the reticle
  \<^verbatim>\<open>(mx, my)\<close> of every state the program reaches lies in the play field:
  \<open>0 \<le> mx < WIN_W\<close> and \<open>0 \<le> my < WIN_H\<close>.
\<close>

theorem reticle_in_play_field:
  "reachable st \<Longrightarrow> 0 \<le> mx st \<and> mx st < WIN_W \<and> 0 \<le> my st \<and> my st < WIN_H"
  using reachable_state_ok[of st] by (simp add: state_ok_def)

theorem reticle_in_play_field_witness:
  "reachable (tick (inp0 16 [] (5000, - 5000)) False (new_game rd0)) \<and>
   mx (tick (inp0 16 [] (5000, - 5000)) False (new_game rd0)) = 1279 \<and>
   my (tick (inp0 16 [] (5000, - 5000)) False (new_game rd0)) = 0 \<and>
   0 \<le> mx (tick (inp0 16 [] (5000, - 5000)) False (new_game rd0)) \<and>
   mx (tick (inp0 16 [] (5000, - 5000)) False (new_game rd0)) < WIN_W \<and>
   0 \<le> my (tick (inp0 16 [] (5000, - 5000)) False (new_game rd0)) \<and>
   my (tick (inp0 16 [] (5000, - 5000)) False (new_game rd0)) < WIN_H"
proof -
  let ?st = "tick (inp0 16 [] (5000, - 5000)) False (new_game rd0)"
  have r: "reachable ?st"
    by (rule reachable_frame[OF reachable_new[of rd0], where inp = "inp0 16 [] (5000, - 5000)"])
       (simp add: frame_no_events)
  have v: "mx ?st = 1279 \<and> my ?st = 0"
    by (simp add: tick_reticle mouse_step_def inp0_def new_game_def WIN_W_def WIN_H_def)
  from reticle_in_play_field[OF r] r v show ?thesis by simp
qed

text \<open>
  C4. In every state the program reaches, so after every tick of every round,
  \<open>0 \<le> ammo \<le> STARTING_AMMO\<close>, \<open>0 \<le> lives \<le> STARTING_LIVES\<close> and
  \<open>time_left \<ge> 0\<close>.
\<close>

theorem resources_bounded:
  "reachable st \<Longrightarrow>
     0 \<le> ammo st \<and> ammo st \<le> STARTING_AMMO \<and>
     0 \<le> lives st \<and> lives st \<le> STARTING_LIVES \<and> 0 \<le> time_left st"
  using reachable_state_ok[of st] by (simp add: state_ok_def)

theorem resources_bounded_witness:
  "reachable (tick (inp0 16 [MOUSEBUTTONDOWN 1] (0, 0)) True (new_game rd0)) \<and>
   ammo (tick (inp0 16 [MOUSEBUTTONDOWN 1] (0, 0)) True (new_game rd0)) = 9 \<and>
   lives (tick (inp0 16 [MOUSEBUTTONDOWN 1] (0, 0)) True (new_game rd0)) = 6 \<and>
   time_left (tick (inp0 16 [MOUSEBUTTONDOWN 1] (0, 0)) True (new_game rd0)) = 7498 / 125 \<and>
   0 \<le> ammo (tick (inp0 16 [MOUSEBUTTONDOWN 1] (0, 0)) True (new_game rd0)) \<and>
   ammo (tick (inp0 16 [MOUSEBUTTONDOWN 1] (0, 0)) True (new_game rd0)) \<le> STARTING_AMMO \<and>
   0 \<le> lives (tick (inp0 16 [MOUSEBUTTONDOWN 1] (0, 0)) True (new_game rd0)) \<and>
   lives (tick (inp0 16 [MOUSEBUTTONDOWN 1] (0, 0)) True (new_game rd0)) \<le> STARTING_LIVES \<and>
   0 \<le> time_left (tick (inp0 16 [MOUSEBUTTONDOWN 1] (0, 0)) True (new_game rd0))"
proof -
  let ?inp = "inp0 16 [MOUSEBUTTONDOWN 1] (0, 0)"
  let ?st = "tick ?inp True (new_game rd0)"
  have f: "frame ?inp (new_game rd0) = Some ?st"
    by (simp add: frame_def inp0_def)
  have r: "reachable ?st"
    by (rule reachable_frame[OF reachable_new[of rd0] f])
  have a: "ammo ?st = 9" by (simp add: eval_defs upt3)
  have l: "lives ?st = 6" by (simp add: eval_defs upt3)
  have t: "time_left ?st = 7498 / 125" by (simp add: eval_defs upt3)
  from resources_bounded[OF r] r a l t show ?thesis by simp
qed

section \<open>Shot resolution\<close>

lemma eligible_iff: "eligible px py d \<longleftrightarrow> lifecycle d = Flying \<and> collides d px py"
  by (auto simp: eligible_def lifecycle_def)

lemma tick_fields:
  "ammo (tick inp sh st) = ammo (shoot_step inp sh (timer_step (dt_of inp) (mouse_step (in_rel inp) st)))"
  "score (tick inp sh st) = score (shoot_step inp sh (timer_step (dt_of inp) (mouse_step (in_rel inp) st)))"
  "speed (tick inp sh st) = speed (shoot_step inp sh (timer_step (dt_of inp) (mouse_step (in_rel inp) st)))"
  "time_left (tick inp sh st) = time_left (timer_step (dt_of inp) (mouse_step (in_rel inp) st))"
  by (simp_all add: tick_def)

lemma update_ducks_keeps_flying:
  assumes "j < length ds" "lifecycle (ds ! j) = Flying"
  shows "lifecycle (fst (update_ducks dt rd i ds st) ! j) = Flying"
proof -
  from assms(2) have a: "d_alive (ds ! j)" "\<not> d_hit (ds ! j)"
    by (auto simp: lifecycle_def split: if_splits)
  then have "d_alive (update (ds ! j) dt (speed st))" by (simp add: update_alive)
  with a show ?thesis
    by (simp add: update_ducks_nth[OF assms(1)] Let_def lifecycle_def)
qed

lemma tick_ducks:
  "ducks (tick inp sh st) =
     fst (update_ducks (dt_of inp) (in_reset inp) 0
           (ducks (shoot_step inp sh (timer_step (dt_of inp) (mouse_step (in_rel inp) st))))
           (ammo_step (shoot_step inp sh (timer_step (dt_of inp) (mouse_step (in_rel inp) st)))))"
  by (simp add: tick_def)

text \<open>
  C1. A tick in which a fire trigger arrives with \<open>ammo > 0\<close> ends with \<open>ammo\<close> one lower
  and \<open>score\<close> either the same or 100 higher. The shot is resolved on the state \<open>m\<close> the timer
  leaves, at its reticle: if no target is Flying and collides there, the pool and the score
  stay as they are; otherwise the first such target in pool order, index \<open>i\<close>, becomes Hit
  with \<open>hit_timer = 20\<close>, the score grows by 100, every other slot of the pool is untouched by
  the shot, and every other target that was Flying is still Flying when the tick is over,
  whether it collides with the reticle or not.
\<close>

theorem shot_resolution:
  assumes "0 < ammo st"
  shows "ammo (tick inp True st) = ammo st - 1 \<and>
    (score (tick inp True st) = score st \<or> score (tick inp True st) = score st + 100) \<and>
    (let m = timer_step (dt_of inp) (mouse_step (in_rel inp) st);
         ds = ducks m; ds' = ducks (shoot_step inp True m)
     in ((\<forall>d \<in> set ds. \<not> (lifecycle d = Flying \<and> collides d (mx m) (my m))) \<longrightarrow>
           ds' = ds \<and> score (tick inp True st) = score st) \<and>
        (\<forall>i < length ds.
           lifecycle (ds ! i) = Flying \<and> collides (ds ! i) (mx m) (my m) \<and>
           (\<forall>j < i. \<not> (lifecycle (ds ! j) = Flying \<and> collides (ds ! j) (mx m) (my m))) \<longrightarrow>
             ds' = ds[i := (ds ! i)\<lparr> d_hit := True, d_hit_timer := 20 \<rparr>] \<and>
             lifecycle (ds' ! i) = Hit \<and>
             score (tick inp True st) = score st + 100 \<and>
             (\<forall>j < length ds. j \<noteq> i \<longrightarrow> ds' ! j = ds ! j) \<and>
             (\<forall>j < length ds. j \<noteq> i \<and> lifecycle (ds ! j) = Flying \<longrightarrow>
                lifecycle (ducks (tick inp True st) ! j) = Flying)))"
proof -
  define m where "m = timer_step (dt_of inp) (mouse_step (in_rel inp) st)"
  define ds where "ds = ducks m"
  define ds' where "ds' = ducks (shoot_step inp True m)"
  have am: "0 < ammo m" "ammo m = ammo st" "score m = score st"
    using assms by (simp_all add: m_def)
  have A: "ammo (tick inp True st) = ammo st - 1"
    using shoot_step_cases[of inp True m] am by (auto simp: tick_fields m_def[symmetric])
  have sc: "score (tick inp True st) = score (shoot_step inp True m)"
    by (simp add: tick_fields m_def)
  have B: "score (tick inp True st) = score st \<or> score (tick inp True st) = score st + 100"
    using shoot_step_cases[of inp True m] am by (auto simp: sc)
  have C: "ds' = ds \<and> score (tick inp True st) = score st"
    if "\<forall>d \<in> set ds. \<not> (lifecycle d = Flying \<and> collides d (mx m) (my m))"
  proof -
    from that have "\<forall>d \<in> set (ducks m). \<not> eligible (mx m) (my m) d"
      by (simp add: eligible_iff ds_def)
    from shoot_step_miss[OF am(1) this, of inp] am show ?thesis
      by (simp add: sc ds'_def ds_def)
  qed
  have D: "ds' = ds[i := (ds ! i)\<lparr> d_hit := True, d_hit_timer := 20 \<rparr>] \<and>
           lifecycle (ds' ! i) = Hit \<and>
           score (tick inp True st) = score st + 100 \<and>
           (\<forall>j < length ds. j \<noteq> i \<longrightarrow> ds' ! j = ds ! j) \<and>
           (\<forall>j < length ds. j \<noteq> i \<and> lifecycle (ds ! j) = Flying \<longrightarrow>
              lifecycle (ducks (tick inp True st) ! j) = Flying)"
    if i: "i < length ds" and e: "lifecycle (ds ! i) = Flying \<and> collides (ds ! i) (mx m) (my m)"
      and f: "\<forall>j < i. \<not> (lifecycle (ds ! j) = Flying \<and> collides (ds ! j) (mx m) (my m))"
    for i
  proof -
    from i e f have h: "i < length (ducks m)" "eligible (mx m) (my m) (ducks m ! i)"
      "\<forall>j < i. \<not> eligible (mx m) (my m) (ducks m ! j)"
      by (simp_all add: eligible_iff ds_def)
    from shoot_step_hit[OF am(1) h, of inp]
    have eq: "ds' = ds[i := (ds ! i)\<lparr> d_hit := True, d_hit_timer := 20 \<rparr>]"
      and s: "score (shoot_step inp True m) = score m + 100"
      by (simp_all add: ds'_def ds_def)
    from e have al: "d_alive (ds ! i)" by (auto simp: lifecycle_def split: if_splits)
    from eq i al have hit: "lifecycle (ds' ! i) = Hit" by (simp add: lifecycle_def)
    from eq have oth: "\<forall>j < length ds. j \<noteq> i \<longrightarrow> ds' ! j = ds ! j" by simp
    have fly: "\<forall>j < length ds. j \<noteq> i \<and> lifecycle (ds ! j) = Flying \<longrightarrow>
              lifecycle (ducks (tick inp True st) ! j) = Flying"
    proof (intro allI impI)
      fix j assume j: "j < length ds" and k: "j \<noteq> i \<and> lifecycle (ds ! j) = Flying"
      from eq j have l: "j < length ds'" by simp
      from oth j k have "lifecycle (ds' ! j) = Flying" by simp
      from update_ducks_keeps_flying[OF l this] show "lifecycle (ducks (tick inp True st) ! j) = Flying"
        by (simp add: tick_ducks ds'_def m_def)
    qed
    from eq hit s am oth fly show ?thesis by (simp add: sc)
  qed
  from A B C D show ?thesis
    unfolding Let_def m_def[symmetric] ds_def[symmetric] ds'_def[symmetric] by blast
qed


theorem shot_resolution_witness:
  "0 < ammo st_two \<and>
   lifecycle (ducks st_two ! 0) = Flying \<and> collides (ducks st_two ! 0) 640 360 \<and>
   lifecycle (ducks st_two ! 1) = Flying \<and> collides (ducks st_two ! 1) 640 360 \<and>
   ammo (tick (inp0 16 [MOUSEBUTTONDOWN 1] (0, 0)) True st_two) = 9 \<and>
   score (tick (inp0 16 [MOUSEBUTTONDOWN 1] (0, 0)) True st_two) = 100 \<and>
   lifecycle (ducks (shoot_step (inp0 16 [MOUSEBUTTONDOWN 1] (0, 0)) True
      (timer_step (dt_of (inp0 16 [MOUSEBUTTONDOWN 1] (0, 0)))
         (mouse_step (in_rel (inp0 16 [MOUSEBUTTONDOWN 1] (0, 0))) st_two))) ! 0) = Hit \<and>
   lifecycle (ducks (tick (inp0 16 [MOUSEBUTTONDOWN 1] (0, 0)) True st_two) ! 1) = Flying"
proof -
  let ?inp = "inp0 16 [MOUSEBUTTONDOWN 1] (0, 0)"
  let ?m = "timer_step (dt_of ?inp) (mouse_step (in_rel ?inp) st_two)"
  have h: "0 < ammo st_two"
    by (simp add: st_two_def new_game_def STARTING_AMMO_def)
  have m: "mx ?m = 640" "my ?m = 360" "ducks ?m = ducks st_two" "score st_two = 0"
    "ammo st_two = 10"
    by (simp_all add: st_two_def mouse_step_def inp0_def new_game_def consts_defs)
  have d: "ducks st_two ! 0 = duck_mid" "ducks st_two ! 1 = duck_mid\<lparr> d_x := 650 \<rparr>"
    "length (ducks st_two) = 3"
    by (simp_all add: st_two_def)
  have e0: "lifecycle (ducks st_two ! 0) = Flying \<and> collides (ducks st_two ! 0) 640 360"
    by (simp add: st_two_def lifecycle_def collides_near duck_mid_def)
  have e1: "lifecycle (ducks st_two ! 1) = Flying \<and> collides (ducks st_two ! 1) 640 360"
    by (simp add: st_two_def lifecycle_def collides_near duck_mid_def)
  note S = shot_resolution[OF h, of ?inp, unfolded Let_def]
  from S m(5) have a: "ammo (tick ?inp True st_two) = 9" by simp
  from S have T: "\<forall>i < length (ducks ?m).
       lifecycle (ducks ?m ! i) = Flying \<and> collides (ducks ?m ! i) (mx ?m) (my ?m) \<and>
       (\<forall>j < i. \<not> (lifecycle (ducks ?m ! j) = Flying \<and> collides (ducks ?m ! j) (mx ?m) (my ?m))) \<longrightarrow>
         lifecycle (ducks (shoot_step ?inp True ?m) ! i) = Hit \<and>
         score (tick ?inp True st_two) = score st_two + 100 \<and>
         (\<forall>j < length (ducks ?m). j \<noteq> i \<and> lifecycle (ducks ?m ! j) = Flying \<longrightarrow>
            lifecycle (ducks (tick ?inp True st_two) ! j) = Flying)"
    by blast
  from T[rule_format, of 0] e0 m d
  have r: "lifecycle (ducks (shoot_step ?inp True ?m) ! 0) = Hit"
    "score (tick ?inp True st_two) = 100"
    "\<forall>j < 3. j \<noteq> 0 \<and> lifecycle (ducks st_two ! j) = Flying \<longrightarrow>
        lifecycle (ducks (tick ?inp True st_two) ! j) = Flying"
    by simp_all
  from r(3)[rule_format, of 1] e1
  have "lifecycle (ducks (tick ?inp True st_two) ! 1) = Flying" by simp
  with h e0 e1 a r show ?thesis by simp
qed

section \<open>The collision test\<close>

lemma shoot_loop_none_flying:
  "\<forall>d \<in> set ds. lifecycle d \<noteq> Flying \<Longrightarrow> shoot_loop rp px py ds st = (ds, st, False)"
  by (rule shoot_loop_miss) (simp add: eligible_iff)

lemma shoot_loop_skips:
  assumes "j < length ds" "lifecycle (ds ! j) \<noteq> Flying"
  shows "fst (shoot_loop rp px py ds st) ! j = ds ! j"
proof -
  from shoot_loop_result[of rp px py ds st] show ?thesis
  proof (elim disjE conjE exE)
    assume "shoot_loop rp px py ds st = (ds, st, False)"
    then show ?thesis by simp
  next
    fix i assume i: "eligible px py (ds ! i)"
      and r: "shoot_loop rp px py ds st =
        (ds[i := (ds ! i)\<lparr> d_hit := True, d_hit_timer := 20 \<rparr>], hit_state rp (ds ! i) st, True)"
    from i assms(2) have "i \<noteq> j" by (auto simp: eligible_iff)
    with r show ?thesis by simp
  qed
qed

text \<open>
  The half-height of a target of size 48 as the machine has it, 28.799999999999997, is below
  0.6 times 48: a reticle whose rounded distance is exactly that value does not collide.
\<close>

lemma collides_at_half_height:
  "\<not> collides (duck_mid\<lparr> d_y := 5010254585449677 / 70368744177664 \<rparr>) 640 100"
proof -
  let ?D = "duck_mid\<lparr> d_y := 5010254585449677 / 70368744177664 \<rparr>"
  have y: "real_of_int 100 - d_y ?D = 2026619832316723 / 70368744177664"
    and sz: "real_of_int (d_size ?D) = 48"
    by (simp_all add: duck_mid_def)
  have a: "dbl (2026619832316723 / 70368744177664) = 2026619832316723 / 70368744177664"
    by (simp add: dbl_sixteen round_even_def)
  have "\<not> \<bar>dbl (real_of_int 100 - d_y ?D)\<bar> < dbl (real_of_int (d_size ?D) * dbl (6 / 10))"
    unfolding y sz a dbl_hh_48 by simp
  then show ?thesis unfolding collides_def Let_def by blast
qed

text \<open>
  C5, as the code has it. The test is an axis-aligned box test centred on \<open>(x, y)\<close> whose
  half-width is approximately 0.9 times \<open>size\<close> and whose half-height is approximately 0.6
  times \<open>size\<close>, so approximately 1.8 by 1.2 times \<open>size\<close> in all: \<^verbatim>\<open>collides\<close> is true at
  every point within the half-extents shrunk by the factor \<open>1 - 10\<^sup>-\<^sup>1\<^sup>5\<close>, and it is false at
  every point that is not strictly within the half-extents grown by the factor
  \<open>1 + 10\<^sup>-\<^sup>1\<^sup>5\<close>; in between the rounding of the machine decides. The shot acts on the test
  only for a Flying target: a target that is not Flying is left as it is, and when no target
  is Flying the shot loop changes nothing and reports no hit, whatever \<^verbatim>\<open>collides\<close> says.
\<close>

theorem collides_box:
  assumes "0 < d_size d"
  shows
  "(\<bar>real_of_int px - d_x d\<bar> \<le> (1 - 1 / 10 ^ 15) * (real_of_int (d_size d) * (9 / 10)) \<and>
    \<bar>real_of_int py - d_y d\<bar> \<le> (1 - 1 / 10 ^ 15) * (real_of_int (d_size d) * (6 / 10)) \<longrightarrow>
      collides d px py) \<and>
   (collides d px py \<longrightarrow>
      \<bar>real_of_int px - d_x d\<bar> < (1 + 1 / 10 ^ 15) * (real_of_int (d_size d) * (9 / 10)) \<and>
      \<bar>real_of_int py - d_y d\<bar> < (1 + 1 / 10 ^ 15) * (real_of_int (d_size d) * (6 / 10))) \<and>
   (\<forall>j < length ds. lifecycle (ds ! j) \<noteq> Flying \<longrightarrow>
      fst (shoot_loop rp px py ds st) ! j = ds ! j) \<and>
   ((\<forall>d \<in> set ds. lifecycle d \<noteq> Flying) \<longrightarrow> shoot_loop rp px py ds st = (ds, st, False))"
  using collides_inside[OF assms, of px py] collides_outside[OF assms, of px py]
    shoot_loop_skips[of _ ds rp px py st] shoot_loop_none_flying[of ds rp px py st]
  by blast

theorem collides_box_witness:
  "0 < d_size duck_mid \<and>
   \<bar>real_of_int 683 - d_x duck_mid\<bar> \<le> (1 - 1 / 10 ^ 15) * (real_of_int (d_size duck_mid) * (9 / 10)) \<and>
   \<bar>real_of_int 360 - d_y duck_mid\<bar> \<le> (1 - 1 / 10 ^ 15) * (real_of_int (d_size duck_mid) * (6 / 10)) \<and>
   collides duck_mid 683 360 \<and>
   \<bar>real_of_int 683 - d_x duck_mid\<bar> < (1 + 1 / 10 ^ 15) * (real_of_int (d_size duck_mid) * (9 / 10)) \<and>
   lifecycle ([duck_shot] ! 0) \<noteq> Flying \<and> collides duck_shot 640 360 \<and>
   fst (shoot_loop pr0 640 360 [duck_shot] (new_game rd0)) ! 0 = [duck_shot] ! 0 \<and>
   shoot_loop pr0 640 360 [duck_shot] (new_game rd0) = ([duck_shot], new_game rd0, False)"
proof -
  have s: "0 < d_size duck_mid" "0 < d_size duck_shot"
    by (simp_all add: duck_shot_def duck_mid_def)
  have i: "\<bar>real_of_int 683 - d_x duck_mid\<bar> \<le> (1 - 1 / 10 ^ 15) * (real_of_int (d_size duck_mid) * (9 / 10))"
    "\<bar>real_of_int 360 - d_y duck_mid\<bar> \<le> (1 - 1 / 10 ^ 15) * (real_of_int (d_size duck_mid) * (6 / 10))"
    by (simp_all add: duck_mid_def)
  have a: "lifecycle ([duck_shot] ! 0) \<noteq> Flying" "\<forall>d \<in> set [duck_shot]. lifecycle d \<noteq> Flying"
    by (simp_all add: lifecycle_def duck_shot_def duck_mid_def)
  have c: "collides duck_shot 640 360"
    by (rule collides_near) (simp_all add: duck_shot_def duck_mid_def)
  note M = collides_box[OF s(1), of 683 360 "[]" pr0 "new_game rd0"]
  from M i have h: "collides duck_mid 683 360" by blast
  with M have o: "\<bar>real_of_int 683 - d_x duck_mid\<bar> <
      (1 + 1 / 10 ^ 15) * (real_of_int (d_size duck_mid) * (9 / 10))" by blast
  note T = collides_box[OF s(2), of 640 360 "[duck_shot]" pr0 "new_game rd0"]
  have l: "0 < length [duck_shot]" by simp
  from T have "\<forall>j < length [duck_shot]. lifecycle ([duck_shot] ! j) \<noteq> Flying \<longrightarrow>
      fst (shoot_loop pr0 640 360 [duck_shot] (new_game rd0)) ! j = [duck_shot] ! j"
    by blast
  from this[rule_format, OF l a(1)]
  have f: "fst (shoot_loop pr0 640 360 [duck_shot] (new_game rd0)) ! 0 = [duck_shot] ! 0" .
  from T a(2) have g: "shoot_loop pr0 640 360 [duck_shot] (new_game rd0) = ([duck_shot], new_game rd0, False)"
    by blast
  from s(1) i h o a(1) c f g show ?thesis by blast
qed

text \<open>
  C5 as stated fails: the point 43 to the right of a target of size 48 collides, though it
  is twice as far from the centre as the edge of a box of total width 0.9 times 48.
\<close>

theorem collides_spec_box_counterexample:
  "collides duck_mid 683 360 \<and> \<not> in_spec_box duck_mid 683 360"
proof -
  have "collides duck_mid 683 360"
    by (rule collides_near) (simp_all add: duck_mid_def)
  moreover have "\<not> in_spec_box duck_mid 683 360"
    by (simp add: in_spec_box_def duck_mid_def)
  ultimately show ?thesis by (rule conjI)
qed

section \<open>Escaping targets\<close>

lemma tick_after_ducks:
  "lives (tick inp sh st) = lives (ducks_step inp (ammo_step (shoot_step inp sh (timer_step (dt_of inp) (mouse_step (in_rel inp) st)))))"
  "game_over (tick inp sh st) = game_over (ducks_step inp (ammo_step (shoot_step inp sh (timer_step (dt_of inp) (mouse_step (in_rel inp) st)))))"
  "over_reason (tick inp sh st) = over_reason (ducks_step inp (ammo_step (shoot_step inp sh (timer_step (dt_of inp) (mouse_step (in_rel inp) st)))))"
  "ducks (tick inp sh st) = ducks (ducks_step inp (ammo_step (shoot_step inp sh (timer_step (dt_of inp) (mouse_step (in_rel inp) st)))))"
  by (simp_all add: tick_def)

lemma state_ok_before_ducks:
  "state_ok st \<Longrightarrow>
   state_ok (ammo_step (shoot_step inp sh (timer_step (dt_of inp) (mouse_step (in_rel inp) st))))"
  by (intro state_ok_ammo_step state_ok_shoot_step state_ok_timer_step state_ok_mouse_step)

lemma escapes_iff:
  "d_alive d \<Longrightarrow>
   escapes dt sp d \<longleftrightarrow> lifecycle (update d dt sp) = Flying \<and> is_offscreen (update d dt sp)"
  by (auto simp: escapes_def lifecycle_def update_alive)

lemma filter_escapes:
  "\<forall>d \<in> set ds. d_alive d \<Longrightarrow>
   filter (escapes dt sp) ds =
   filter (\<lambda>d. lifecycle (update d dt sp) = Flying \<and> is_offscreen (update d dt sp)) ds"
  by (rule filter_cong) (simp_all add: escapes_iff)

lemma is_offscreen_iff:
  "is_offscreen d \<longleftrightarrow>
     d_x d < - (2 * real_of_int (d_size d)) \<or> real_of_int WIN_W + 2 * real_of_int (d_size d) < d_x d"
  by (simp add: is_offscreen_def mult.commute)

text \<open>
  C7, as the code has it. Take any reachable state and any tick on it, and let \<open>m\<close> be the
  state on which the duck loop starts. A target escapes when, after its advance, it is Flying
  and its \<open>x\<close> is more than \<open>2 * size\<close> (96 pixels, four times the half-width of its body)
  beyond the left or the right edge. With \<open>k\<close> the number of escaping
  targets, the tick leaves \<open>lives = max 0 (lives - k)\<close>: one life per escape, stopping at 0.
  The pool keeps its size, every escaped target is respawned in its slot, Flying, at the
  shared speed. When the lives run out the round is over with reason GAME OVER!, and
  otherwise the duck loop leaves \<open>game_over\<close> and the reason alone. Targets that have been
  hit cost no life, off screen or not.
\<close>

theorem escape_costs_life:
  assumes "reachable st"
  shows
   "let m = ammo_step (shoot_step inp sh (timer_step (dt_of inp) (mouse_step (in_rel inp) st)));
        dt = dt_of inp; sp = speed m; st' = tick inp sh st;
        esc = (\<lambda>d. lifecycle (update d dt sp) = Flying \<and>
                 (d_x (update d dt sp) < - (2 * real_of_int (d_size d)) \<or>
                  real_of_int WIN_W + 2 * real_of_int (d_size d) < d_x (update d dt sp)));
        k = int (length (filter esc (ducks m)))
    in lives st' = max 0 (lives m - k) \<and>
       length (ducks st') = length (ducks m) \<and> length (ducks st') = MAX_DUCKS \<and>
       (\<forall>j < length (ducks m). esc (ducks m ! j) \<longrightarrow>
          ducks st' ! j = reset (update (ducks m ! j) dt sp) sp (in_reset inp j) \<and>
          lifecycle (ducks st' ! j) = Flying \<and> d_speed (ducks st' ! j) = speed st') \<and>
       (0 < k \<and> lives m - k \<le> 0 \<longrightarrow>
          lives st' = 0 \<and> game_over st' \<and> over_reason st' = ''GAME OVER!'') \<and>
       (\<not> (0 < k \<and> lives m - k \<le> 0) \<longrightarrow>
          game_over st' = game_over m \<and> over_reason st' = over_reason m) \<and>
       ((\<forall>d \<in> set (ducks m). lifecycle d = Hit) \<longrightarrow> lives st' = lives m)"
proof -
  define m where "m = ammo_step (shoot_step inp sh (timer_step (dt_of inp) (mouse_step (in_rel inp) st)))"
  define dt where "dt = dt_of inp"
  define sp where "sp = speed m"
  define st' where "st' = tick inp sh st"
  define esc where "esc = (\<lambda>d. lifecycle (update d dt sp) = Flying \<and>
                 (d_x (update d dt sp) < - (2 * real_of_int (d_size d)) \<or>
                  real_of_int WIN_W + 2 * real_of_int (d_size d) < d_x (update d dt sp)))"
  define k where "k = int (length (filter esc (ducks m)))"
  let ?r = "update_ducks dt (in_reset inp) 0 (ducks m) m"
  from assms have "state_ok st" by (rule reachable_state_ok)
  then have ok: "state_ok m" unfolding m_def by (rule state_ok_before_ducks)
  then have l0: "0 \<le> lives m" and al: "\<forall>d \<in> set (ducks m). d_alive d"
    and len: "length (ducks m) = MAX_DUCKS"
    by (simp_all add: state_ok_def)
  have E: "esc d \<longleftrightarrow> escapes dt sp d" if "d_alive d" for d
    using that by (simp add: esc_def escapes_iff is_offscreen_iff)
  have kk: "k = int (length (filter (escapes dt (speed m)) (ducks m)))"
    unfolding k_def sp_def[symmetric]
    using al E by (simp cong: filter_cong)
  have L: "lives st' = lives (snd ?r)" "game_over st' = game_over (snd ?r)"
    "over_reason st' = over_reason (snd ?r)" "ducks st' = fst ?r"
    by (simp_all add: st'_def tick_after_ducks m_def[symmetric] dt_def)
  have S: "speed st' = sp"
    by (simp add: st'_def sp_def m_def tick_fields)
  have A: "lives st' = max 0 (lives m - k)"
    using update_ducks_lives[OF l0, of dt "in_reset inp" 0 "ducks m"] by (simp add: L kk)
  have B: "length (ducks st') = length (ducks m)"
    by (simp add: L update_ducks_length)
  have C: "ducks st' ! j = reset (update (ducks m ! j) dt sp) sp (in_reset inp j) \<and>
          lifecycle (ducks st' ! j) = Flying \<and> d_speed (ducks st' ! j) = speed st'"
    if j: "j < length (ducks m)" and e: "esc (ducks m ! j)" for j
  proof -
    from j al have "d_alive (ducks m ! j)" by simp
    with e have "escapes dt sp (ducks m ! j)" by (simp add: E)
    then show ?thesis
      by (simp add: L S update_ducks_nth[OF j] Let_def sp_def[symmetric] lifecycle_def)
  qed
  have O: "if 0 < k \<and> lives m - k \<le> 0
       then game_over st' \<and> over_reason st' = ''GAME OVER!''
       else game_over st' = game_over m \<and> over_reason st' = over_reason m"
    using update_ducks_over[OF l0, of dt "ducks m" "in_reset inp" 0]
    by (simp add: Let_def L kk)
  have D: "lives st' = 0 \<and> game_over st' \<and> over_reason st' = ''GAME OVER!''"
    if "0 < k \<and> lives m - k \<le> 0"
    using that O A by simp
  have F: "game_over st' = game_over m \<and> over_reason st' = over_reason m"
    if "\<not> (0 < k \<and> lives m - k \<le> 0)"
    using that O by simp
  have G: "lives st' = lives m" if h: "\<forall>d \<in> set (ducks m). lifecycle d = Hit"
  proof -
    have "\<not> esc d" if "d \<in> set (ducks m)" for d
      using h that by (auto simp: esc_def lifecycle_def split: if_splits)
    then have "filter esc (ducks m) = []" by (simp add: filter_empty_conv)
    with A l0 show ?thesis by (simp add: k_def)
  qed
  from B len have B2: "length (ducks st') = MAX_DUCKS" by simp
  have "lives st' = max 0 (lives m - k) \<and>
       length (ducks st') = length (ducks m) \<and> length (ducks st') = MAX_DUCKS \<and>
       (\<forall>j < length (ducks m). esc (ducks m ! j) \<longrightarrow>
          ducks st' ! j = reset (update (ducks m ! j) dt sp) sp (in_reset inp j) \<and>
          lifecycle (ducks st' ! j) = Flying \<and> d_speed (ducks st' ! j) = speed st') \<and>
       (0 < k \<and> lives m - k \<le> 0 \<longrightarrow>
          lives st' = 0 \<and> game_over st' \<and> over_reason st' = ''GAME OVER!'') \<and>
       (\<not> (0 < k \<and> lives m - k \<le> 0) \<longrightarrow>
          game_over st' = game_over m \<and> over_reason st' = over_reason m) \<and>
       ((\<forall>d \<in> set (ducks m). lifecycle d = Hit) \<longrightarrow> lives st' = lives m)"
    using A B B2 C D F G by blast
  then show ?thesis
    unfolding Let_def k_def esc_def st'_def sp_def dt_def m_def .
qed


theorem escape_costs_life_witness:
  "reachable (new_game rd0) \<and>
   lives (new_game rd0) = 6 \<and>
   lives (tick (inp0 10000 [] (0, 0)) False (new_game rd0)) = 3 \<and>
   length (ducks (tick (inp0 10000 [] (0, 0)) False (new_game rd0))) = MAX_DUCKS \<and>
   \<not> game_over (tick (inp0 10000 [] (0, 0)) False (new_game rd0))"
proof -
  let ?inp = "inp0 10000 [] (0, 0)"
  let ?m = "ammo_step (shoot_step ?inp False (timer_step (dt_of ?inp) (mouse_step (in_rel ?inp) (new_game rd0))))"
  have r: "reachable (new_game rd0)" by (rule reachable_new)
  have m: "?m = (new_game rd0)\<lparr> time_left := 50 \<rparr>"
    by (simp add: eval_defs upt3)
  have d: "ducks (new_game rd0) = [Duck 180 (rd0 0), Duck 180 (rd0 1), Duck 180 (rd0 2)]"
    "lives (new_game rd0) = 6" "speed (new_game rd0) = 180" "\<not> game_over (new_game rd0)"
    by (simp_all add: new_game_def upt3 consts_defs)
  have e: "lifecycle (update (Duck 180 (rd0 i)) 10 180) = Flying"
    "d_x (update (Duck 180 (rd0 i)) 10 180) = 1752" "d_size (Duck 180 (rd0 i)) = 48" for i
    by (simp_all add: lifecycle_def update_def Duck_def reset_def rd0_def Let_def FLAP_SPEED_def)
  have t: "dt_of ?inp = 10" by (simp add: dt_of_def inp0_def)
  from escape_costs_life[OF r, of ?inp False]
  have "lives (tick ?inp False (new_game rd0)) = 3 \<and>
        length (ducks (tick ?inp False (new_game rd0))) = MAX_DUCKS \<and>
        \<not> game_over (tick ?inp False (new_game rd0))"
    unfolding Let_def m by (simp add: t d e WIN_W_def)
  with r d show ?thesis by simp
qed

text \<open>
  C7 as stated fails: from a fresh round, a frame of 7.7 seconds brings the three targets to
  \<open>x = 1338\<close>, which is more than twice the half-width of their body beyond the right edge
  (1280 + 48), and they are Flying; yet no life is lost and no target is respawned, since
  \<^verbatim>\<open>is_offscreen\<close> asks for more than \<open>2 * size\<close> (1280 + 96).
\<close>

theorem escape_margin_counterexample:
  "frame (inp0 7700 [] (0, 0)) (new_game rd0) = Some (tick (inp0 7700 [] (0, 0)) False (new_game rd0)) \<and>
   map lifecycle (ducks (tick (inp0 7700 [] (0, 0)) False (new_game rd0))) = [Flying, Flying, Flying] \<and>
   map d_x (ducks (tick (inp0 7700 [] (0, 0)) False (new_game rd0))) = [1338, 1338, 1338] \<and>
   map beyond_twice_half_width (ducks (tick (inp0 7700 [] (0, 0)) False (new_game rd0))) =
     [True, True, True] \<and>
   lives (new_game rd0) = 6 \<and>
   lives (tick (inp0 7700 [] (0, 0)) False (new_game rd0)) = 6"
proof -
  let ?S = "tick (inp0 7700 [] (0, 0)) False (new_game rd0)"
  have f: "frame (inp0 7700 [] (0, 0)) (new_game rd0) = Some ?S"
    by (simp add: frame_no_events)
  have a: "map lifecycle (ducks ?S) = [Flying, Flying, Flying]"
    by (simp add: eval_defs upt3 lifecycle_def)
  have b: "map d_x (ducks ?S) = [1338, 1338, 1338]"
    by (simp add: eval_defs upt3)
  have c: "map beyond_twice_half_width (ducks ?S) = [True, True, True]"
    by (simp add: eval_defs upt3 beyond_twice_half_width_def body_half_width_def)
  have d: "lives (new_game rd0) = 6" "lives ?S = 6"
    by (simp_all add: eval_defs upt3)
  from f a b c d show ?thesis by simp
qed

section \<open>Particles\<close>







section \<open>Fire triggers that do nothing\<close>

lemma tick_no_ammo: "ammo st = 0 \<Longrightarrow> tick inp True st = tick inp False st"
  by (simp add: tick_def shoot_step_skip)

lemma frame_playing:
  "\<not> game_over st \<Longrightarrow>
   frame inp st = None \<or>
   frame inp st = Some (tick inp (MOUSEBUTTONDOWN 1 \<in> set (in_events inp)) st)"
  using handle_events_playing[of st "in_new inp" "in_events inp" False]
  by (auto simp: frame_def)

lemma frame_ended:
  "game_over st \<Longrightarrow> KEYDOWN K_r \<notin> set (in_events inp) \<Longrightarrow>
   frame inp st = None \<or> frame inp st = Some st"
  using handle_events_ended[of st "in_events inp" "in_new inp" False]
  by (auto simp: frame_def)

lemma handle_events_ended_clicks:
  "game_over st \<Longrightarrow> KEYDOWN K_r \<notin> set es1 \<Longrightarrow>
   handle_events rd (es1 @ es2) st sh =
   handle_events rd (filter (\<lambda>e. e \<noteq> MOUSEBUTTONDOWN 1) es1 @ es2) st sh"
proof (induction es1)
  case Nil
  then show ?case by simp
next
  case (Cons e es1)
  then show ?case by (cases e) auto
qed

lemma tick_events:
  "tick (inp\<lparr> in_events := es \<rparr>) sh st = tick inp sh st"
  by (simp add: tick_def shoot_step_def ducks_step_def dt_of_def muzzle_def)

lemma frame_ended_clicks:
  assumes "game_over st" "KEYDOWN K_r \<notin> set es1" "in_events inp = es1 @ es2"
  shows "frame inp st =
         frame (inp\<lparr> in_events := filter (\<lambda>e. e \<noteq> MOUSEBUTTONDOWN 1) es1 @ es2 \<rparr>) st"
  using handle_events_ended_clicks[OF assms(1,2), of "in_new inp" es2 False] assms(3)
  by (auto simp: frame_def tick_events split: option.splits)

text \<open>
  C6, as the code has it. With \<open>ammo = 0\<close> a fire trigger changes nothing: shot resolution
  is the identity on the state the timer leaves, the tick with the trigger is the tick
  without it (so no ammo is used, score and speed stay, no particle is added, no target is
  hit), and a frame on such a state is the tick without a trigger whatever its events. On a
  round that is already over, the fire triggers that arrive while it is over, that is before
  any restart key in the event queue, are dropped: the frame does exactly what it does
  without them, whatever follows them in the queue, a restart included; and when the queue
  holds no restart key the frame leaves the whole state as it is.
\<close>

theorem fire_trigger_noop:
  "(ammo st = 0 \<longrightarrow>
      shoot_step inp True (timer_step (dt_of inp) (mouse_step (in_rel inp) st)) =
        timer_step (dt_of inp) (mouse_step (in_rel inp) st) \<and>
      tick inp True st = tick inp False st \<and>
      ammo (tick inp True st) = 0 \<and> score (tick inp True st) = score st \<and>
      speed (tick inp True st) = speed st) \<and>
   (ammo st = 0 \<and> \<not> game_over st \<longrightarrow>
      frame inp st = None \<or> frame inp st = Some (tick inp False st)) \<and>
   (game_over st \<and> KEYDOWN K_r \<notin> set es1 \<and> in_events inp = es1 @ es2 \<longrightarrow>
      frame inp st =
      frame (inp\<lparr> in_events := filter (\<lambda>e. e \<noteq> MOUSEBUTTONDOWN 1) es1 @ es2 \<rparr>) st) \<and>
   (game_over st \<and> KEYDOWN K_r \<notin> set (in_events inp) \<longrightarrow>
      frame inp st = None \<or> frame inp st = Some st)"
proof -
  have A: "shoot_step inp True (timer_step (dt_of inp) (mouse_step (in_rel inp) st)) =
        timer_step (dt_of inp) (mouse_step (in_rel inp) st) \<and>
      tick inp True st = tick inp False st \<and>
      ammo (tick inp True st) = 0 \<and> score (tick inp True st) = score st \<and>
      speed (tick inp True st) = speed st" if "ammo st = 0"
    using that by (simp add: tick_no_ammo tick_fields shoot_step_skip)
  have B: "frame inp st = None \<or> frame inp st = Some (tick inp False st)"
    if "ammo st = 0 \<and> \<not> game_over st"
  proof (cases "MOUSEBUTTONDOWN 1 \<in> set (in_events inp)")
    case True
    with frame_playing[of st inp] that tick_no_ammo[of st inp] show ?thesis by auto
  next
    case False
    with frame_playing[of st inp] that show ?thesis by auto
  qed
  have C: "frame inp st = None \<or> frame inp st = Some st"
    if "game_over st \<and> KEYDOWN K_r \<notin> set (in_events inp)"
    using that frame_ended[of st inp] by blast
  have D: "frame inp st =
      frame (inp\<lparr> in_events := filter (\<lambda>e. e \<noteq> MOUSEBUTTONDOWN 1) es1 @ es2 \<rparr>) st"
    if "game_over st \<and> KEYDOWN K_r \<notin> set es1 \<and> in_events inp = es1 @ es2"
    using that frame_ended_clicks[of st es1 inp es2] by blast
  from A B C D show ?thesis by blast
qed

theorem fire_trigger_noop_witness:
  "ammo st_empty = 0 \<and> \<not> game_over st_empty \<and>
   tick (inp0 16 [MOUSEBUTTONDOWN 1] (0, 0)) True st_empty =
     tick (inp0 16 [MOUSEBUTTONDOWN 1] (0, 0)) False st_empty \<and>
   ammo (tick (inp0 16 [MOUSEBUTTONDOWN 1] (0, 0)) True st_empty) = 0 \<and>
   score (tick (inp0 16 [MOUSEBUTTONDOWN 1] (0, 0)) True st_empty) = 100 \<and>
   frame (inp0 16 [MOUSEBUTTONDOWN 1] (0, 0)) st_empty =
     Some (tick (inp0 16 [MOUSEBUTTONDOWN 1] (0, 0)) False st_empty) \<and>
   game_over st_timeup \<and>
   KEYDOWN K_r \<notin> set (in_events (inp0 16 [MOUSEBUTTONDOWN 1] (0, 0))) \<and>
   frame (inp0 16 [MOUSEBUTTONDOWN 1] (0, 0)) st_timeup = Some st_timeup \<and>
   frame (inp0 16 [MOUSEBUTTONDOWN 1, KEYDOWN K_r] (0, 0)) st_timeup =
     Some (tick (inp0 16 [KEYDOWN K_r] (0, 0)) False (new_game rd0)) \<and>
   ammo (tick (inp0 16 [KEYDOWN K_r] (0, 0)) False (new_game rd0)) = 10"
proof -
  let ?i = "inp0 16 [MOUSEBUTTONDOWN 1] (0, 0)"
  let ?j = "inp0 16 [MOUSEBUTTONDOWN 1, KEYDOWN K_r] (0, 0)"
  let ?k = "inp0 16 [KEYDOWN K_r] (0, 0)"
  have e: "ammo st_empty = 0" "\<not> game_over st_empty" "score st_empty = 100"
    by (simp_all add: st_empty_def new_game_def)
  have t: "game_over st_timeup" "KEYDOWN K_r \<notin> set (in_events ?i)"
    by (simp_all add: st_timeup_def inp0_def)
  have n: "frame ?i st_empty \<noteq> None" "frame ?i st_timeup \<noteq> None"
    using e t by (simp_all add: frame_def inp0_def)
  from fire_trigger_noop[of st_empty ?i "[]" "[]"] e n
  have 1: "tick ?i True st_empty = tick ?i False st_empty \<and>
      ammo (tick ?i True st_empty) = 0 \<and> score (tick ?i True st_empty) = score st_empty \<and>
      frame ?i st_empty = Some (tick ?i False st_empty)"
    by blast
  from fire_trigger_noop[of st_timeup ?i "[]" "[]"] t n
  have 2: "frame ?i st_timeup = Some st_timeup" by blast
  from 1 have "score (tick ?i True st_empty) = score st_empty" by (elim conjE)
  from this e(3) have 3: "score (tick ?i True st_empty) = 100" by (rule trans)
  have q: "KEYDOWN K_r \<notin> set [MOUSEBUTTONDOWN 1]"
    "in_events ?j = [MOUSEBUTTONDOWN 1] @ [KEYDOWN K_r]"
    by (simp_all add: inp0_def)
  from fire_trigger_noop[of st_timeup ?j "[MOUSEBUTTONDOWN 1]" "[KEYDOWN K_r]"] t(1) q
  have "frame ?j st_timeup =
      frame (?j\<lparr> in_events := filter (\<lambda>e. e \<noteq> MOUSEBUTTONDOWN 1) [MOUSEBUTTONDOWN 1] @ [KEYDOWN K_r] \<rparr>) st_timeup"
    by blast
  also have "?j\<lparr> in_events := filter (\<lambda>e. e \<noteq> MOUSEBUTTONDOWN 1) [MOUSEBUTTONDOWN 1] @ [KEYDOWN K_r] \<rparr> = ?k"
    by (simp add: inp0_def)
  also have "frame ?k st_timeup = Some (tick ?k False (new_game rd0))"
    using t(1) by (simp add: frame_def inp0_def)
  finally have 4: "frame ?j st_timeup = Some (tick ?k False (new_game rd0))" .
  have 5: "ammo (tick ?k False (new_game rd0)) = 10"
    by (simp add: tick_fields shoot_step_skip new_game_def STARTING_AMMO_def)
  from 1 2 3 4 5 e(1,2) t show ?thesis by blast
qed

text \<open>
  C6 as stated fails on the tick in which the timer ends the round: on a fresh round, a frame
  of 60 seconds that carries a fire trigger sets \<open>game_over\<close> in the timer phase, and the
  shot is resolved all the same: one round of ammunition is used and the muzzle burst is
  emitted.
\<close>

theorem fire_on_ending_tick_counterexample:
  "frame (inp0 60000 [MOUSEBUTTONDOWN 1] (0, 0)) (new_game rd0) =
     Some (tick (inp0 60000 [MOUSEBUTTONDOWN 1] (0, 0)) True (new_game rd0)) \<and>
   game_over (timer_step (dt_of (inp0 60000 [MOUSEBUTTONDOWN 1] (0, 0)))
     (mouse_step (in_rel (inp0 60000 [MOUSEBUTTONDOWN 1] (0, 0))) (new_game rd0))) \<and>
   ammo (new_game rd0) = 10 \<and>
   ammo (tick (inp0 60000 [MOUSEBUTTONDOWN 1] (0, 0)) True (new_game rd0)) = 9 \<and>
   particles (new_game rd0) = [] \<and>
   length (particles (tick (inp0 60000 [MOUSEBUTTONDOWN 1] (0, 0)) True (new_game rd0))) = 8"
proof -
  let ?i = "inp0 60000 [MOUSEBUTTONDOWN 1] (0, 0)"
  have f: "frame ?i (new_game rd0) = Some (tick ?i True (new_game rd0))"
    by (simp add: frame_def inp0_def)
  have g: "game_over (timer_step (dt_of ?i) (mouse_step (in_rel ?i) (new_game rd0)))"
    by (simp add: timer_step_def mouse_step_def dt_of_def inp0_def new_game_def
        GAME_DURATION_def Let_def)
  have a: "ammo (new_game rd0) = 10" "particles (new_game rd0) = []"
    by (simp_all add: new_game_def STARTING_AMMO_def)
  have b: "ammo (tick ?i True (new_game rd0)) = 9"
    by (simp add: eval_defs upt3)
  have c: "length (particles (tick ?i True (new_game rd0))) = 8"
    by (simp add: eval_defs upt3 upt8)
  from f g a b c show ?thesis by simp
qed

section \<open>The end of a round\<close>

text \<open>
  C3, as the code has it. In every reachable state \<open>over_reason\<close> is set exactly when
  \<open>game_over\<close> is, and it is one of the three reasons. A state that is over is left as it is
  by every frame without a restart key; a frame can only replace it by the result of a tick on
  a fresh round, and only when the restart key is among its events. Nothing is said here of
  the order in which the phases of the ending tick write the reason.
\<close>

theorem end_reason_set_iff_ended:
  assumes "reachable st"
  shows "(game_over st \<longleftrightarrow> over_reason st \<noteq> []) \<and>
    (game_over st \<longrightarrow>
       (over_reason st = ''TIME'S UP!'' \<or> over_reason st = ''OUT OF AMMO!'' \<or>
        over_reason st = ''GAME OVER!'') \<and>
       (KEYDOWN K_r \<notin> set (in_events inp) \<longrightarrow> frame inp st = None \<or> frame inp st = Some st) \<and>
       (\<forall>st'. frame inp st = Some st' \<longrightarrow>
          st' = st \<or>
          (KEYDOWN K_r \<in> set (in_events inp) \<and> (\<exists>sh. st' = tick inp sh (new_game (in_new inp))))))"
proof -
  from assms have ok: "state_ok st" by (rule reachable_state_ok)
  then have A: "game_over st \<longleftrightarrow> over_reason st \<noteq> []" by (simp add: state_ok_def)
  have B: "over_reason st = ''TIME'S UP!'' \<or> over_reason st = ''OUT OF AMMO!'' \<or>
        over_reason st = ''GAME OVER!''" if "game_over st"
    using ok that by (auto simp: state_ok_def)
  have C: "frame inp st = None \<or> frame inp st = Some st"
    if "game_over st" "KEYDOWN K_r \<notin> set (in_events inp)"
    using that by (rule frame_ended)
  have D: "st' = st \<or>
          (KEYDOWN K_r \<in> set (in_events inp) \<and> (\<exists>sh. st' = tick inp sh (new_game (in_new inp))))"
    if g: "game_over st" and f: "frame inp st = Some st'" for st'
  proof (cases "KEYDOWN K_r \<in> set (in_events inp)")
    case False
    with C[OF g] f show ?thesis by auto
  next
    case True
    from f obtain st1 sh where
      h: "handle_events (in_new inp) (in_events inp) st False = Some (st1, sh)"
      by (auto simp: frame_def split: option.splits)
    from f h have r: "(game_over st1 \<and> st' = st1) \<or> (\<not> game_over st1 \<and> st' = tick inp sh st1)"
      by (auto simp: frame_def split: if_splits)
    from handle_events_state[OF h] g r True show ?thesis by auto
  qed
  from A B C D show ?thesis by blast
qed


lemma frame_ten_seconds:
  "frame (inp0 10000 [] (0, 0)) (new_game rd0) = Some st_three_left"
proof -
  have "tick (inp0 10000 [] (0, 0)) False (new_game rd0) = st_three_left"
    by (simp add: st_three_left_def eval_defs upt3)
  then show ?thesis by (simp add: frame_no_events)
qed

lemma reachable_three_left: "reachable st_three_left"
  by (rule reachable_frame[OF reachable_new frame_ten_seconds])

theorem end_reason_set_iff_ended_witness:
  "reachable (tick (inp0 50000 [] (0, 0)) False st_three_left) \<and>
   game_over (tick (inp0 50000 [] (0, 0)) False st_three_left) \<and>
   over_reason (tick (inp0 50000 [] (0, 0)) False st_three_left) = ''GAME OVER!'' \<and>
   KEYDOWN K_r \<notin> set (in_events (inp0 16 [MOUSEBUTTONDOWN 1] (0, 0))) \<and>
   frame (inp0 16 [MOUSEBUTTONDOWN 1] (0, 0)) (tick (inp0 50000 [] (0, 0)) False st_three_left) =
     Some (tick (inp0 50000 [] (0, 0)) False st_three_left)"
proof -
  let ?S = "tick (inp0 50000 [] (0, 0)) False st_three_left"
  let ?i = "inp0 16 [MOUSEBUTTONDOWN 1] (0, 0)"
  have p: "\<not> game_over st_three_left" by (simp add: st_three_left_def)
  have r: "reachable ?S"
    by (rule reachable_frame[OF reachable_three_left frame_no_events[OF p]])
  have g: "game_over ?S" "over_reason ?S = ''GAME OVER!''"
    by (simp_all add: st_three_left_def eval_defs upt3)
  have k: "KEYDOWN K_r \<notin> set (in_events ?i)" by (simp add: inp0_def)
  have n: "frame ?i ?S \<noteq> None" using g(1) by (simp add: frame_def inp0_def)
  from end_reason_set_iff_ended[OF r, of ?i] g(1) k n
  have "frame ?i ?S = Some ?S" by blast
  with r g k show ?thesis by blast
qed

text \<open>
  C3 as stated fails: a reason that is set can be overwritten within the same tick. From a
  fresh round, a frame of ten seconds leaves three lives and fifty seconds. In a second frame,
  of fifty seconds, the timer ends the round with TIME'S UP!, and then the three targets
  escape, the lives run out and the reason becomes GAME OVER!.
\<close>

theorem end_reason_overwritten_counterexample:
  "frame (inp0 10000 [] (0, 0)) (new_game rd0) = Some st_three_left \<and>
   frame (inp0 50000 [] (0, 0)) st_three_left = Some (tick (inp0 50000 [] (0, 0)) False st_three_left) \<and>
   over_reason (timer_step (dt_of (inp0 50000 [] (0, 0)))
      (mouse_step (in_rel (inp0 50000 [] (0, 0))) st_three_left)) = ''TIME'S UP!'' \<and>
   over_reason (tick (inp0 50000 [] (0, 0)) False st_three_left) = ''GAME OVER!''"
proof -
  have p: "\<not> game_over st_three_left" by (simp add: st_three_left_def)
  have a: "over_reason (timer_step (dt_of (inp0 50000 [] (0, 0)))
      (mouse_step (in_rel (inp0 50000 [] (0, 0))) st_three_left)) = ''TIME'S UP!''"
    by (simp add: st_three_left_def timer_step_def mouse_step_def dt_of_def inp0_def
        new_game_def Let_def)
  have b: "over_reason (tick (inp0 50000 [] (0, 0)) False st_three_left) = ''GAME OVER!''"
    by (simp add: st_three_left_def eval_defs upt3)
  from frame_ten_seconds frame_no_events[OF p] a b show ?thesis by blast
qed

section \<open>A round of ten missed shots\<close>

lemma poised_new_game: "poised 10 6 (- 48) 60 (new_game rd0)"
  by (simp add: poised_def new_game_def Duck_def reset_def rd0_def upt3 consts_defs)

lemma poised_no_target:
  "poised a l x t st \<Longrightarrow> x \<le> 0 \<Longrightarrow> \<forall>d \<in> set (ducks st). \<not> eligible 640 360 d"
  by (auto simp: poised_def eligible_def collides_far)

lemma poised_after_shot:
  assumes p: "poised a l x t st" and a: "0 < a" and x: "x \<le> 0"
    and t: "real ms / 1000 < t"
  shows "\<not> game_over (before_check (click_frame ms) True st)"
    "ammo (before_check (click_frame ms) True st) = a - 1"
    "lives (before_check (click_frame ms) True st) = l"
    "time_left (before_check (click_frame ms) True st) = t - real ms / 1000"
    "mx (before_check (click_frame ms) True st) = 640"
    "my (before_check (click_frame ms) True st) = 360"
    "speed (before_check (click_frame ms) True st) = 180"
    "ducks (before_check (click_frame ms) True st) = ducks st"
proof -
  let ?inp = "click_frame ms"
  let ?m1 = "timer_step (dt_of ?inp) (mouse_step (in_rel ?inp) st)"
  from p t have m1: "\<not> game_over ?m1" "ammo ?m1 = a" "lives ?m1 = l"
    "time_left ?m1 = t - real ms / 1000" "mx ?m1 = 640" "my ?m1 = 360" "speed ?m1 = 180"
    "ducks ?m1 = ducks st"
    by (simp_all add: poised_def timer_step_def mouse_step_def Let_def click_frame_def inp0_def
        dt_of_def WIN_W_def WIN_H_def)
  from poised_no_target[OF p x] m1
  have ne: "\<forall>d \<in> set (ducks ?m1). \<not> eligible (mx ?m1) (my ?m1) d" by simp
  from a m1 have "0 < ammo ?m1" by simp
  from shoot_step_miss[OF this ne, of ?inp]
  have eq: "before_check ?inp True st =
      ?m1\<lparr> ammo := ammo ?m1 - 1, particles := particles ?m1 @ muzzle ?inp ?m1 \<rparr>"
    by (simp add: before_check_def)
  show "\<not> game_over (before_check ?inp True st)"
    "ammo (before_check ?inp True st) = a - 1"
    "lives (before_check ?inp True st) = l"
    "time_left (before_check ?inp True st) = t - real ms / 1000"
    "mx (before_check ?inp True st) = 640"
    "my (before_check ?inp True st) = 360"
    "speed (before_check ?inp True st) = 180"
    "ducks (before_check ?inp True st) = ducks st"
    unfolding eq using m1 by simp_all
qed

lemma tick_before_check:
  "tick inp sh st = particles_step (dt_of inp) (ducks_step inp (ammo_step (before_check inp sh st)))"
  by (simp add: tick_def before_check_def)

lemma poised_escapes:
  assumes "d_alive d" "\<not> d_hit d" "d_dir d = 1" "d_size d = 48" "- 48 \<le> d_x d" "0 \<le> dt"
  shows "escapes dt 180 d \<longleftrightarrow> 1376 < d_x d + 180 * dt"
  using assms
  by (auto simp: escapes_def is_offscreen_def update_def Let_def WIN_W_def)

lemma update_ducks_no_escape:
  "\<forall>d \<in> set ds. \<not> escapes dt (speed st) d \<Longrightarrow> snd (update_ducks dt rd i ds st) = st"
  by (induction ds arbitrary: i) (simp_all add: update_ducks_Cons Let_def del: update_ducks.simps(2))

lemma poised_update:
  assumes "d_alive d" "\<not> d_hit d" "d_dir d = 1" "d_size d = 48"
  shows "d_alive (update d dt 180)" "\<not> d_hit (update d dt 180)" "d_dir (update d dt 180) = 1"
    "d_size (update d dt 180) = 48" "d_x (update d dt 180) = d_x d + 180 * dt"
  using assms by (simp_all add: update_def Let_def)

lemma poised_reset:
  assumes "d_size d = 48"
  shows "d_dir (reset d 180 (rd0 j)) = 1" "d_x (reset d 180 (rd0 j)) = - 48"
  using assms by (simp_all add: reset_def rd0_def)

text \<open>A frame with a missed shot in which no target leaves the screen.\<close>

lemma poised_frame_short:
  assumes p: "poised a l x t st" and a: "1 < a" and x: "- 48 \<le> x" "x \<le> 0"
    and t: "real ms / 1000 < t" and s: "x + 180 * (real ms / 1000) \<le> 0"
  shows "poised (a - 1) l (x + 180 * (real ms / 1000)) (t - real ms / 1000)
           (tick (click_frame ms) True st)"
proof -
  let ?inp = "click_frame ms"
  let ?dt = "real ms / 1000"
  let ?m = "before_check ?inp True st"
  from a have a0: "0 < a" by simp
  note m = poised_after_shot[OF p a0 x(2) t]
  from a m have am: "ammo_step ?m = ?m" by (simp add: ammo_step_def)
  have dt: "dt_of ?inp = ?dt" "in_reset ?inp = rd0"
    by (simp_all add: dt_of_def click_frame_def inp0_def)
  let ?r = "update_ducks ?dt rd0 0 (ducks st) ?m"
  from p have ds: "\<forall>d \<in> set (ducks st).
      d_alive d \<and> \<not> d_hit d \<and> d_dir d = 1 \<and> d_size d = 48 \<and> d_x d = x"
    and len: "length (ducks st) = 3" by (simp_all add: poised_def)
  have ne: "\<forall>d \<in> set (ducks st). \<not> escapes ?dt (speed ?m) d"
    using ds x s by (simp add: poised_escapes m)
  from update_ducks_no_escape[OF ne] have sr: "snd ?r = ?m" .
  have nth: "d_alive (fst ?r ! j) \<and> \<not> d_hit (fst ?r ! j) \<and> d_dir (fst ?r ! j) = 1 \<and>
      d_size (fst ?r ! j) = 48 \<and> d_x (fst ?r ! j) = x + 180 * ?dt"
    if j: "j < length (ducks st)" for j
  proof -
    from j ds have d: "d_alive (ducks st ! j)" "\<not> d_hit (ducks st ! j)"
      "d_dir (ducks st ! j) = 1" "d_size (ducks st ! j) = 48" "d_x (ducks st ! j) = x"
      by simp_all
    from j ne have e: "\<not> escapes ?dt 180 (ducks st ! j)" by (simp add: m)
    from poised_update[OF d(1-4), of ?dt] d(5) e show ?thesis
      by (simp add: update_ducks_nth[OF j] m Let_def)
  qed
  have all: "\<forall>d \<in> set (fst ?r). d_alive d \<and> \<not> d_hit d \<and> d_dir d = 1 \<and>
      d_size d = 48 \<and> d_x d = x + 180 * ?dt"
    using nth by (simp add: all_set_conv_all_nth update_ducks_length)
  have tk: "tick ?inp True st = particles_step ?dt (ducks_step ?inp ?m)"
    by (simp add: tick_before_check am dt)
  show ?thesis
    unfolding tk poised_def
    using m all sr by (simp add: dt update_ducks_length len)
qed

text \<open>A frame with a missed shot in which all three targets escape.\<close>

lemma poised_frame_long:
  assumes p: "poised a l x t st" and a: "1 < a" and l: "3 < l" and x: "- 48 \<le> x" "x \<le> 0"
    and t: "real ms / 1000 < t" and s: "1376 < x + 180 * (real ms / 1000)"
  shows "poised (a - 1) (l - 3) (- 48) (t - real ms / 1000) (tick (click_frame ms) True st)"
proof -
  let ?inp = "click_frame ms"
  let ?dt = "real ms / 1000"
  let ?m = "before_check ?inp True st"
  from a have a0: "0 < a" by simp
  note m = poised_after_shot[OF p a0 x(2) t]
  from a m have am: "ammo_step ?m = ?m" by (simp add: ammo_step_def)
  have dt: "dt_of ?inp = ?dt" "in_reset ?inp = rd0"
    by (simp_all add: dt_of_def click_frame_def inp0_def)
  let ?r = "update_ducks ?dt rd0 0 (ducks st) ?m"
  from p have ds: "\<forall>d \<in> set (ducks st).
      d_alive d \<and> \<not> d_hit d \<and> d_dir d = 1 \<and> d_size d = 48 \<and> d_x d = x"
    and len: "length (ducks st) = 3" by (simp_all add: poised_def)
  have es: "\<forall>d \<in> set (ducks st). escapes ?dt 180 d"
    using ds x s by (simp add: poised_escapes)
  then have f: "filter (escapes ?dt 180) (ducks st) = ducks st" by simp
  from l m have l0: "0 \<le> lives ?m" by simp
  from update_ducks_lives[OF l0, of ?dt rd0 0 "ducks st"] l
  have lv: "lives (snd ?r) = l - 3" by (simp add: f len m)
  from update_ducks_over[OF l0, of ?dt "ducks st" rd0 0] l
  have ov: "\<not> game_over (snd ?r)" by (simp add: f len m Let_def)
  have nth: "d_alive (fst ?r ! j) \<and> \<not> d_hit (fst ?r ! j) \<and> d_dir (fst ?r ! j) = 1 \<and>
      d_size (fst ?r ! j) = 48 \<and> d_x (fst ?r ! j) = - 48"
    if j: "j < length (ducks st)" for j
  proof -
    from j ds have d: "d_size (ducks st ! j) = 48" by simp
    from j es have e: "escapes ?dt 180 (ducks st ! j)" by simp
    have "d_size (update (ducks st ! j) ?dt 180) = 48" using d by simp
    from poised_reset[OF this] e d show ?thesis
      by (simp add: update_ducks_nth[OF j] m Let_def)
  qed
  have all: "\<forall>d \<in> set (fst ?r). d_alive d \<and> \<not> d_hit d \<and> d_dir d = 1 \<and>
      d_size d = 48 \<and> d_x d = - 48"
    using nth by (simp add: all_set_conv_all_nth update_ducks_length)
  have tk: "tick ?inp True st = particles_step ?dt (ducks_step ?inp ?m)"
    by (simp add: tick_before_check am dt)
  show ?thesis
    unfolding tk poised_def
    using m all lv ov by (simp add: dt update_ducks_length len update_ducks_frame)
qed

text \<open>Up to nine frames of 16 ms, each with a missed shot, from a fresh round.\<close>

lemma poised_short_frames:
  "n \<le> 9 \<Longrightarrow>
   poised (10 - int n) 6 (- 48 + 180 * (real n * (16 / 1000))) (60 - real n * (16 / 1000))
     ((tick (click_frame 16) True ^^ n) (new_game rd0))"
proof (induction n)
  case 0
  then show ?case using poised_new_game by simp
next
  case (Suc n)
  then have n: "n < 9" and p: "poised (10 - int n) 6 (- 48 + 180 * (real n * (16 / 1000)))
     (60 - real n * (16 / 1000)) ((tick (click_frame 16) True ^^ n) (new_game rd0))"
    by simp_all
  from n have r: "real n \<le> 8" by simp
  have H: "poised (10 - int n - 1) 6 (- 48 + 180 * (real n * (16 / 1000)) + 180 * (real 16 / 1000))
     (60 - real n * (16 / 1000) - real 16 / 1000)
     (tick (click_frame 16) True ((tick (click_frame 16) True ^^ n) (new_game rd0)))"
    using n r by (intro poised_frame_short[OF p]) simp_all
  have e1: "10 - int (Suc n) = 10 - int n - 1" by simp
  have e2: "- 48 + 180 * (real (Suc n) * (16 / 1000)) =
      - 48 + 180 * (real n * (16 / 1000)) + 180 * (real 16 / 1000)"
    by (simp add: algebra_simps)
  have e3: "60 - real (Suc n) * (16 / 1000) = 60 - real n * (16 / 1000) - real 16 / 1000"
    by (simp add: algebra_simps)
  have e4: "(tick (click_frame 16) True ^^ Suc n) (new_game rd0) =
      tick (click_frame 16) True ((tick (click_frame 16) True ^^ n) (new_game rd0))"
    by simp
  show ?case unfolding e1 e2 e3 e4 by (rule H)
qed

lemma frame_click_frame:
  "\<not> game_over st \<Longrightarrow> frame (click_frame ms) st = Some (tick (click_frame ms) True st)"
  by (simp add: frame_def click_frame_def inp0_def)

lemma poised_playing: "poised a l x t st \<Longrightarrow> \<not> game_over st"
  by (simp add: poised_def)

lemma reachable_short_frames:
  "n \<le> 9 \<Longrightarrow> reachable ((tick (click_frame 16) True ^^ n) (new_game rd0))"
proof (induction n)
  case 0
  then show ?case by (simp add: reachable_new)
next
  case (Suc n)
  then have r: "reachable ((tick (click_frame 16) True ^^ n) (new_game rd0))" and n: "n \<le> 9"
    by simp_all
  from poised_playing[OF poised_short_frames[OF n]]
  have "\<not> game_over ((tick (click_frame 16) True ^^ n) (new_game rd0))" .
  from reachable_frame[OF r frame_click_frame[OF this]] show ?case by simp
qed

section \<open>Out of ammunition\<close>

lemma alive_count_all_flying:
  "\<forall>d \<in> set (ducks st). lifecycle d = Flying \<Longrightarrow> alive_count st = length (ducks st)"
proof -
  assume "\<forall>d \<in> set (ducks st). lifecycle d = Flying"
  then have "\<forall>d \<in> set (ducks st). d_alive d \<and> \<not> d_hit d"
    by (auto simp: lifecycle_def split: if_splits)
  then have "filter (\<lambda>d. d_alive d \<and> \<not> d_hit d) (ducks st) = ducks st" by simp
  then show ?thesis by (simp add: alive_count_def)
qed

lemma state_ok_before_check: "state_ok st \<Longrightarrow> state_ok (before_check inp sh st)"
  unfolding before_check_def
  by (intro state_ok_shoot_step state_ok_timer_step state_ok_mouse_step)

lemma before_check_lives [simp]: "lives (before_check inp sh st) = lives st"
  by (simp add: before_check_def)

text \<open>
  C2, as the code has it. Take a reachable state of a round in play and any tick on it, and
  let \<open>m\<close> be the state on which the out-of-ammo check runs, after shot resolution. When
  \<open>ammo = 0\<close> there and every target of the pool is Flying, the check ends the round
  with reason OUT OF AMMO!, and the round is over when the tick is over. The reason is then
  still OUT OF AMMO! unless the lives run out in the duck loop of the same tick, which
  writes GAME OVER! over it: the reason after the tick is GAME OVER! exactly when no life is
  left.
\<close>

theorem out_of_ammo_ends_round:
  assumes "reachable st" "\<not> game_over st"
  shows
   "let m = before_check inp sh st; st' = tick inp sh st
    in ammo m = 0 \<and> (\<forall>d \<in> set (ducks m). lifecycle d = Flying) \<longrightarrow>
         length (ducks m) = MAX_DUCKS \<and>
         game_over (ammo_step m) \<and> over_reason (ammo_step m) = ''OUT OF AMMO!'' \<and>
         game_over st' \<and>
         (over_reason st' = ''OUT OF AMMO!'' \<or> over_reason st' = ''GAME OVER!'') \<and>
         (over_reason st' = ''GAME OVER!'' \<longleftrightarrow> lives st' = 0)"
proof -
  define m where "m = before_check inp sh st"
  define st' where "st' = tick inp sh st"
  define m' where "m' = ammo_step m"
  let ?r = "update_ducks (dt_of inp) (in_reset inp) 0 (ducks m') m'"
  let ?k = "int (length (filter (escapes (dt_of inp) (speed m')) (ducks m')))"
  from assms have ok: "state_ok st" by (simp add: reachable_state_ok)
  with assms(2) have lp: "0 < lives st" by (simp add: state_ok_def)
  from ok have okm: "state_ok m" unfolding m_def by (rule state_ok_before_check)
  then have len: "length (ducks m) = MAX_DUCKS" by (simp add: state_ok_def)
  have lm: "lives m' = lives st" by (simp add: m'_def m_def)
  have T: "game_over st' = game_over (snd ?r)" "over_reason st' = over_reason (snd ?r)"
    "lives st' = lives (snd ?r)"
    by (simp_all add: st'_def m'_def m_def tick_before_check)
  have R: "game_over m' \<and> over_reason m' = ''OUT OF AMMO!'' \<and>
         game_over st' \<and>
         (over_reason st' = ''OUT OF AMMO!'' \<or> over_reason st' = ''GAME OVER!'') \<and>
         (over_reason st' = ''GAME OVER!'' \<longleftrightarrow> lives st' = 0)"
    if a: "ammo m = 0" and f: "\<forall>d \<in> set (ducks m). lifecycle d = Flying"
  proof -
    from alive_count_all_flying[OF f] len have "alive_count m = MAX_DUCKS" by simp
    with a have e: "game_over m'" "over_reason m' = ''OUT OF AMMO!''"
      by (simp_all add: m'_def ammo_step_def)
    from lp lm have l0: "0 \<le> lives m'" by simp
    from update_ducks_over[OF l0, of "dt_of inp" "ducks m'" "in_reset inp" 0]
    have O: "if 0 < ?k \<and> lives m' - ?k \<le> 0
       then game_over (snd ?r) \<and> over_reason (snd ?r) = ''GAME OVER!''
       else game_over (snd ?r) = game_over m' \<and> over_reason (snd ?r) = over_reason m'"
      by (simp add: Let_def)
    from update_ducks_lives[OF l0, of "dt_of inp" "in_reset inp" 0 "ducks m'"]
    have L: "lives (snd ?r) = max 0 (lives m' - ?k)" .
    show ?thesis
    proof (cases "0 < ?k \<and> lives m' - ?k \<le> 0")
      case True
      with O L e show ?thesis by (simp add: T)
    next
      case False
      with lp lm have "0 < max 0 (lives m' - ?k)" by auto
      with False O L e show ?thesis by (simp add: T)
    qed
  qed
  have "ammo m = 0 \<and> (\<forall>d \<in> set (ducks m). lifecycle d = Flying) \<longrightarrow>
         length (ducks m) = MAX_DUCKS \<and>
         game_over (ammo_step m) \<and> over_reason (ammo_step m) = ''OUT OF AMMO!'' \<and>
         game_over st' \<and>
         (over_reason st' = ''OUT OF AMMO!'' \<or> over_reason st' = ''GAME OVER!'') \<and>
         (over_reason st' = ''GAME OVER!'' \<longleftrightarrow> lives st' = 0)"
    using R len unfolding m'_def by blast
  then show ?thesis unfolding Let_def st'_def m_def .
qed

text \<open>The frame of the last shot of a round in which every shot has missed.\<close>

lemma poised_last_shot:
  assumes p: "poised 1 l x t st" and x: "x \<le> 0" and t: "real ms / 1000 < t"
  shows "ammo (before_check (click_frame ms) True st) = 0"
    "\<forall>d \<in> set (ducks (before_check (click_frame ms) True st)). lifecycle d = Flying"
    "alive_count (before_check (click_frame ms) True st) = MAX_DUCKS"
    "over_reason (ammo_step (before_check (click_frame ms) True st)) = ''OUT OF AMMO!''"
proof -
  let ?m = "before_check (click_frame ms) True st"
  have a0: "(0::int) < 1" by simp
  note m = poised_after_shot[OF p a0 x t]
  from m(2) show a: "ammo ?m = 0" by simp
  from p m(8) show f: "\<forall>d \<in> set (ducks ?m). lifecycle d = Flying"
    by (simp add: poised_def lifecycle_def)
  from p m(8) have "length (ducks ?m) = MAX_DUCKS" by (simp add: poised_def MAX_DUCKS_def)
  with alive_count_all_flying[OF f] show c: "alive_count ?m = MAX_DUCKS" by simp
  from a c show "over_reason (ammo_step ?m) = ''OUT OF AMMO!''" by (simp add: ammo_step_def)
qed

lemma poised_last_shot_escape:
  assumes p: "poised 1 l x t st" and x: "- 48 \<le> x" "x \<le> 0" and t: "real ms / 1000 < t"
    and l: "0 \<le> l" "l \<le> 3" and s: "1376 < x + 180 * (real ms / 1000)"
  shows "over_reason (tick (click_frame ms) True st) = ''GAME OVER!''"
proof -
  let ?inp = "click_frame ms"
  let ?dt = "real ms / 1000"
  let ?m = "before_check ?inp True st"
  let ?m' = "ammo_step ?m"
  have a0: "(0::int) < 1" by simp
  note m = poised_after_shot[OF p a0 x(2) t]
  have dt: "dt_of ?inp = ?dt" "in_reset ?inp = rd0"
    by (simp_all add: dt_of_def click_frame_def inp0_def)
  from p have ds: "\<forall>d \<in> set (ducks st).
      d_alive d \<and> \<not> d_hit d \<and> d_dir d = 1 \<and> d_size d = 48 \<and> d_x d = x"
    and len: "length (ducks st) = 3" by (simp_all add: poised_def)
  have es: "\<forall>d \<in> set (ducks st). escapes ?dt 180 d"
    using ds x s by (simp add: poised_escapes)
  then have f: "filter (escapes ?dt 180) (ducks st) = ducks st" by simp
  have m': "lives ?m' = l" "speed ?m' = 180" "ducks ?m' = ducks st"
    using m by simp_all
  from l m' have l0: "0 \<le> lives ?m'" by simp
  from p have ls: "lives st = l" by (simp add: poised_def)
  from update_ducks_over[OF l0, of ?dt "ducks st" rd0 0] l
  have "over_reason (snd (update_ducks ?dt rd0 0 (ducks st) ?m')) = ''GAME OVER!''"
    by (simp add: m f len ls Let_def)
  then show ?thesis by (simp add: tick_before_check dt m)
qed

lemma poised_last_shot_stay:
  assumes p: "poised 1 l x t st" and x: "- 48 \<le> x" "x \<le> 0" and t: "real ms / 1000 < t"
    and s: "x + 180 * (real ms / 1000) \<le> 0"
  shows "over_reason (tick (click_frame ms) True st) = ''OUT OF AMMO!''"
    "game_over (tick (click_frame ms) True st)"
proof -
  let ?inp = "click_frame ms"
  let ?dt = "real ms / 1000"
  let ?m = "before_check ?inp True st"
  let ?m' = "ammo_step ?m"
  have a0: "(0::int) < 1" by simp
  note m = poised_after_shot[OF p a0 x(2) t]
  note o = poised_last_shot[OF p x(2) t]
  have dt: "dt_of ?inp = ?dt" "in_reset ?inp = rd0"
    by (simp_all add: dt_of_def click_frame_def inp0_def)
  from p have ds: "\<forall>d \<in> set (ducks st).
      d_alive d \<and> \<not> d_hit d \<and> d_dir d = 1 \<and> d_size d = 48 \<and> d_x d = x"
    by (simp add: poised_def)
  have m': "speed ?m' = 180" "ducks ?m' = ducks st" using m by simp_all
  have ne: "\<forall>d \<in> set (ducks st). \<not> escapes ?dt (speed ?m') d"
    using ds x s by (simp add: poised_escapes m)
  from update_ducks_no_escape[OF ne]
  have sr: "snd (update_ducks ?dt rd0 0 (ducks st) ?m') = ?m'" .
  from o(1,3) have g: "game_over ?m'" by (simp add: ammo_step_def)
  from sr o(4) show "over_reason (tick ?inp True st) = ''OUT OF AMMO!''"
    by (simp add: tick_before_check dt m)
  from sr g show "game_over (tick ?inp True st)"
    by (simp add: tick_before_check dt m)
qed

theorem out_of_ammo_ends_round_witness:
  "reachable ((tick (click_frame 16) True ^^ 9) (new_game rd0)) \<and>
   \<not> game_over ((tick (click_frame 16) True ^^ 9) (new_game rd0)) \<and>
   ammo (before_check (click_frame 16) True ((tick (click_frame 16) True ^^ 9) (new_game rd0))) = 0 \<and>
   alive_count (before_check (click_frame 16) True ((tick (click_frame 16) True ^^ 9) (new_game rd0))) =
     MAX_DUCKS \<and>
   frame (click_frame 16) ((tick (click_frame 16) True ^^ 9) (new_game rd0)) =
     Some (tick (click_frame 16) True ((tick (click_frame 16) True ^^ 9) (new_game rd0))) \<and>
   game_over (tick (click_frame 16) True ((tick (click_frame 16) True ^^ 9) (new_game rd0))) \<and>
   over_reason (tick (click_frame 16) True ((tick (click_frame 16) True ^^ 9) (new_game rd0))) =
     ''OUT OF AMMO!''"
proof -
  let ?S = "(tick (click_frame 16) True ^^ 9) (new_game rd0)"
  let ?c = "click_frame 16"
  have n: "(9::nat) \<le> 9" by simp
  have p: "poised 1 6 (- 48 + 180 * (real 9 * (16 / 1000))) (60 - real 9 * (16 / 1000)) ?S"
    using poised_short_frames[OF n] by simp
  have r: "reachable ?S" by (rule reachable_short_frames[OF n])
  from p have g: "\<not> game_over ?S" by (rule poised_playing)
  have x: "- 48 \<le> - 48 + 180 * (real 9 * (16 / 1000))" "- 48 + 180 * (real 9 * (16 / 1000)) \<le> 0"
    and t: "real 16 / 1000 < 60 - real 9 * (16 / 1000)"
    and s: "- 48 + 180 * (real 9 * (16 / 1000)) + 180 * (real 16 / 1000) \<le> 0"
    by simp_all
  note o = poised_last_shot[OF p x(2) t]
  note k = poised_last_shot_stay[OF p x t s]
  from out_of_ammo_ends_round[OF r g, of ?c True] o(1,2)
  have "game_over (tick ?c True ?S) \<and>
        (over_reason (tick ?c True ?S) = ''OUT OF AMMO!'' \<or>
         over_reason (tick ?c True ?S) = ''GAME OVER!'')"
    unfolding Let_def by blast
  with k(1) have e: "game_over (tick ?c True ?S) \<and> over_reason (tick ?c True ?S) = ''OUT OF AMMO!''"
    by simp
  from r g o(1) o(3) frame_click_frame[OF g] e show ?thesis by blast
qed

text \<open>
  C2 as stated fails when the lives run out on the tick of the last shot. From a fresh round,
  eight frames of 16 ms with a missed shot each, then a frame of ten seconds with a missed
  shot, in which the three targets escape: one round of ammunition and three lives are left.
  On the next frame, again of ten seconds and with a missed shot, \<open>ammo\<close> is 0 at the check
  and the three targets are Flying, so the check writes OUT OF AMMO!; then the three targets
  escape, and the round ends with GAME OVER!.
\<close>

theorem out_of_ammo_overwritten_counterexample:
  "reachable (tick (click_frame 10000) True ((tick (click_frame 16) True ^^ 8) (new_game rd0))) \<and>
   frame (click_frame 10000)
     (tick (click_frame 10000) True ((tick (click_frame 16) True ^^ 8) (new_game rd0))) =
     Some (tick (click_frame 10000) True
       (tick (click_frame 10000) True ((tick (click_frame 16) True ^^ 8) (new_game rd0)))) \<and>
   ammo (before_check (click_frame 10000) True
     (tick (click_frame 10000) True ((tick (click_frame 16) True ^^ 8) (new_game rd0)))) = 0 \<and>
   alive_count (before_check (click_frame 10000) True
     (tick (click_frame 10000) True ((tick (click_frame 16) True ^^ 8) (new_game rd0)))) = MAX_DUCKS \<and>
   over_reason (ammo_step (before_check (click_frame 10000) True
     (tick (click_frame 10000) True ((tick (click_frame 16) True ^^ 8) (new_game rd0))))) =
     ''OUT OF AMMO!'' \<and>
   over_reason (tick (click_frame 10000) True
     (tick (click_frame 10000) True ((tick (click_frame 16) True ^^ 8) (new_game rd0)))) =
     ''GAME OVER!''"
proof -
  let ?S = "(tick (click_frame 16) True ^^ 8) (new_game rd0)"
  let ?A = "tick (click_frame 10000) True ?S"
  let ?c = "click_frame 10000"
  have n: "(8::nat) \<le> 9" by simp
  have p: "poised 2 6 (- 48 + 180 * (real 8 * (16 / 1000))) (60 - real 8 * (16 / 1000)) ?S"
    using poised_short_frames[OF n] by simp
  have r: "reachable ?S" by (rule reachable_short_frames[OF n])
  from p have g: "\<not> game_over ?S" by (rule poised_playing)
  have pa: "poised (2 - 1) (6 - 3) (- 48) (60 - real 8 * (16 / 1000) - real 10000 / 1000) ?A"
    by (rule poised_frame_long[OF p]) simp_all
  then have pa': "poised 1 3 (- 48) (60 - real 8 * (16 / 1000) - real 10000 / 1000) ?A"
    by simp
  have ra: "reachable ?A" by (rule reachable_frame[OF r frame_click_frame[OF g]])
  from pa' have ga: "\<not> game_over ?A" by (rule poised_playing)
  have x: "(- 48 :: real) \<le> - 48" "(- 48 :: real) \<le> 0"
    and t: "real 10000 / 1000 < 60 - real 8 * (16 / 1000) - real 10000 / 1000"
    and l: "(0::int) \<le> 3" "(3::int) \<le> 3"
    and s: "1376 < - 48 + 180 * (real 10000 / 1000)"
    by simp_all
  note o = poised_last_shot[OF pa' x(2) t]
  note k = poised_last_shot_escape[OF pa' x t l s]
  from ra frame_click_frame[OF ga] o(1) o(3) o(4) k show ?thesis by blast
qed

end
